theory Spec2Isabelle
  imports Main "HOL-Library.Word"
begin

unbundle bit_operations_syntax

text \<open>
  The bridge between a telephony client and the provider's voice API, in the variants
  the repository holds: index.js with two \<open>handleClientConnection\<close> functions (the
  first one a skeleton without upstream socket) and its \<open>stripWavHeader\<close>; index.ts with
  its chunker; and three files of WAV helpers (\<open>parseWav\<close> and two \<open>stripWavHeader\<close>
  functions that search for the \<open>data\<close> marker). The definitions come first, the
  properties after them.
\<close>

section \<open>Buffers\<close>

text \<open>
  A Node.js \<open>Buffer\<close> is a sequence of bytes. The operations below are the ones the
  source calls on it, for non-negative integer arguments (the only ones the source
  passes): \<open>subarray\<close>/\<open>slice\<close> clamp both ends to the buffer, \<open>indexOf\<close> returns the
  first position of a byte sequence (\<open>-1\<close> is \<open>None\<close>), the \<open>readUInt..LE\<close> readers
  raise a range error when the read does not fit, and \<open>toString("ascii", s, e)\<close>
  clears the highest bit of every byte before decoding it.
\<close>

type_synonym byte = "8 word"
type_synonym buffer = "byte list"

datatype error = RangeError | TypeError | SyntaxError | NotOpenError

definition Buffer_from :: "string \<Rightarrow> buffer" where
  "Buffer_from s = map (\<lambda>c. of_nat (of_char c)) s"

definition subarray :: "buffer \<Rightarrow> nat \<Rightarrow> nat \<Rightarrow> buffer" where
  "subarray buf s e = take (e - s) (drop s buf)"

definition subarray_from :: "buffer \<Rightarrow> nat \<Rightarrow> buffer" where
  "subarray_from buf s = drop s buf"

definition toString_ascii :: "buffer \<Rightarrow> nat \<Rightarrow> nat \<Rightarrow> string" where
  "toString_ascii buf s e = map (\<lambda>b. char_of (unat (b AND 0x7F))) (subarray buf s e)"

fun indexOf_at :: "buffer \<Rightarrow> buffer \<Rightarrow> nat \<Rightarrow> nat option" where
  "indexOf_at [] marker i = None"
| "indexOf_at (x # xs) marker i =
     (if take (length marker) (x # xs) = marker then Some i
      else indexOf_at xs marker (Suc i))"

definition indexOf :: "buffer \<Rightarrow> buffer \<Rightarrow> nat option" where
  "indexOf buf marker = indexOf_at buf marker 0"

definition readUInt16LE :: "buffer \<Rightarrow> nat \<Rightarrow> error + nat" where
  "readUInt16LE buf off =
     (if off + 2 \<le> length buf
      then Inr (unat (buf ! off) + 256 * unat (buf ! (off + 1)))
      else Inl RangeError)"

definition readUInt32LE :: "buffer \<Rightarrow> nat \<Rightarrow> error + nat" where
  "readUInt32LE buf off =
     (if off + 4 \<le> length buf
      then Inr (unat (buf ! off) + 256 * unat (buf ! (off + 1))
                + 65536 * unat (buf ! (off + 2)) + 16777216 * unat (buf ! (off + 3)))
      else Inl RangeError)"

section \<open>The container parsers\<close>

subsection \<open>\<open>stripWavHeader\<close> of index.js: magic check, then a walk over the chunks\<close>

function walkChunks :: "buffer \<Rightarrow> nat \<Rightarrow> error + buffer" where
  "walkChunks buffer offset =
     (if offset + 8 \<le> length buffer then
        (case readUInt32LE buffer (offset + 4) of
           Inl e \<Rightarrow> Inl e
         | Inr chunkSize \<Rightarrow>
             (if toString_ascii buffer offset (offset + 4) = ''data''
              then Inr (subarray buffer (offset + 8)
                          (min (offset + 8 + chunkSize) (length buffer)))
              else walkChunks buffer (offset + 8 + chunkSize)))
      else Inr buffer)"
  by pat_completeness auto
termination
  by (relation "measure (\<lambda>(buffer, offset). length buffer - offset)") auto

declare walkChunks.simps [simp del]

text \<open>The argument is a buffer, never \<open>null\<close>, so the test \<open>!buffer\<close> is false.\<close>

definition stripWavHeader :: "buffer \<Rightarrow> error + buffer" where
  "stripWavHeader buffer =
     (if length buffer < 44
         \<or> toString_ascii buffer 0 4 \<noteq> ''RIFF''
         \<or> toString_ascii buffer 8 12 \<noteq> ''WAVE''
      then Inr buffer
      else walkChunks buffer 12)"

subsection \<open>\<open>stripWavHeader\<close> of lib.ts: search for the marker in the first 200 bytes\<close>

definition DATA_MARKER :: buffer where
  "DATA_MARKER = Buffer_from ''data''"

definition FMT_MARKER :: buffer where
  "FMT_MARKER = Buffer_from ''fmt ''"

text \<open>The deprecated \<open>stripWavHeader\<close> beside \<open>parseWav\<close> has the same body.\<close>

definition stripWavHeader_lib :: "buffer \<Rightarrow> buffer" where
  "stripWavHeader_lib buffer =
     (let searchLimit = min (length buffer) 200 in
      case indexOf (subarray buffer 0 searchLimit) DATA_MARKER of
        None \<Rightarrow> buffer
      | Some dataIndex \<Rightarrow> subarray_from buffer (dataIndex + 8))"

subsection \<open>The earlier \<open>stripWavHeader\<close>: a loop over the first 200 start positions\<close>

function findDataLoop :: "buffer \<Rightarrow> nat \<Rightarrow> nat option" where
  "findDataLoop buffer i =
     (if i < min (length buffer) 200 then
        (if subarray buffer i (i + 4) = Buffer_from ''data'' then Some i
         else findDataLoop buffer (i + 1))
      else None)"
  by pat_completeness auto
termination
  by (relation "measure (\<lambda>(buffer, i). 200 - i)") auto

declare findDataLoop.simps [simp del]

definition stripWavHeader_loop :: "buffer \<Rightarrow> buffer" where
  "stripWavHeader_loop buffer =
     (case findDataLoop buffer 0 of
        None \<Rightarrow> buffer
      | Some dataIndex \<Rightarrow> subarray_from buffer (dataIndex + 8))"

subsection \<open>\<open>parseWav\<close>\<close>

record WavInfo =
  sampleRate :: nat
  channels :: nat
  bitsPerSample :: nat
  pcmData :: buffer

text \<open>
  The result is \<open>Inr None\<close> for \<open>null\<close>, \<open>Inr (Some info)\<close> for a \<open>WavInfo\<close> and
  \<open>Inl RangeError\<close> when one of the three unguarded reads leaves the buffer.
\<close>

definition parseWav :: "buffer \<Rightarrow> error + WavInfo option" where
  "parseWav buffer =
     (let searchLimit = min (length buffer) 200 in
      case indexOf (subarray buffer 0 searchLimit) FMT_MARKER of
        None \<Rightarrow> Inr None
      | Some fmtIndex \<Rightarrow>
          (let fmtDataStart = fmtIndex + 8 in
           case readUInt16LE buffer (fmtDataStart + 2) of
             Inl e \<Rightarrow> Inl e
           | Inr ch \<Rightarrow>
          (case readUInt32LE buffer (fmtDataStart + 4) of
             Inl e \<Rightarrow> Inl e
           | Inr rate \<Rightarrow>
          (case readUInt16LE buffer (fmtDataStart + 14) of
             Inl e \<Rightarrow> Inl e
           | Inr bits \<Rightarrow>
          (case indexOf (subarray buffer 0 searchLimit) DATA_MARKER of
             None \<Rightarrow> Inr None
           | Some dataIndex \<Rightarrow>
               Inr (Some \<lparr>sampleRate = rate, channels = ch, bitsPerSample = bits,
                          pcmData = subarray_from buffer (dataIndex + 8)\<rparr>))))))"

text \<open>
  The buffer of the container-parsing property: the container magic with its size
  field, the format magic, a 16-byte \<open>fmt \<close> chunk (PCM, one channel, 8000 Hz, 16 bits)
  and a \<open>data\<close> chunk of four bytes.
\<close>

definition wav_1ch_8000_16 :: buffer where
  "wav_1ch_8000_16 =
     Buffer_from ''RIFF'' @ [40, 0, 0, 0] @ Buffer_from ''WAVE''
     @ Buffer_from ''fmt '' @ [16, 0, 0, 0]
     @ [1, 0] @ [1, 0] @ [0x40, 0x1F, 0, 0] @ [0x80, 0x3E, 0, 0] @ [2, 0] @ [16, 0]
     @ Buffer_from ''data'' @ [4, 0, 0, 0]
     @ [0x01, 0x02, 0x03, 0x04]"

text \<open>\<open>occurs_at buf marker j\<close>: the bytes of \<open>marker\<close> stand in \<open>buf\<close> from position \<open>j\<close> on.\<close>

definition occurs_at :: "buffer \<Rightarrow> buffer \<Rightarrow> nat \<Rightarrow> bool" where
  "occurs_at buf marker j = (subarray buf j (j + length marker) = marker)"

text \<open>
  The marker lies within the first \<open>n\<close> bytes of the buffer; the marker starts within
  the first \<open>n\<close> bytes of the buffer.
\<close>

definition marker_within :: "buffer \<Rightarrow> buffer \<Rightarrow> nat \<Rightarrow> bool" where
  "marker_within buf marker n =
     (\<exists>j \<in> {0 ..< min (length buf) n}.
        j + length marker \<le> min (length buf) n \<and> occurs_at buf marker j)"

definition marker_starts_within :: "buffer \<Rightarrow> buffer \<Rightarrow> nat \<Rightarrow> bool" where
  "marker_starts_within buf marker n =
     (\<exists>j \<in> {0 ..< min (length buf) n}. occurs_at buf marker j)"

text \<open>
  Further inputs: six samples of raw PCM whose first two samples are the bytes
  \<open>d a t a\<close>; a raw buffer of 48 bytes that starts with \<open>RIFX\<close>; the example container
  with the highest bit of its first byte set; the example container cut off inside its
  \<open>fmt \<close> chunk; and a container whose \<open>data\<close> chunk starts at byte 200, behind a chunk of
  padding.
\<close>

definition pcm_spelling_data :: buffer where
  "pcm_spelling_data = [0x64, 0x61, 0x74, 0x61, 5, 0, 6, 0, 7, 0, 8, 0]"

definition raw_rifx :: buffer where
  "raw_rifx = Buffer_from ''RIFX'' @ replicate 44 0"

definition wav_high_bit :: buffer where
  "wav_high_bit = 0xD2 # tl wav_1ch_8000_16"

definition wav_truncated :: buffer where
  "wav_truncated = take 24 wav_1ch_8000_16"

definition wav_late_data :: buffer where
  "wav_late_data =
     take 36 wav_1ch_8000_16 @ Buffer_from ''JUNK'' @ [156, 0, 0, 0] @ replicate 156 0
     @ Buffer_from ''data'' @ [4, 0, 0, 0] @ [0x01, 0x02, 0x03, 0x04]"

section \<open>The chunker of index.ts\<close>

text \<open>
  \<open>sendAudioInChunks\<close> hands frames to \<open>humeSocket.sendAudioInput\<close>. The frames handed
  over so far are the list \<open>frames\<close>; a frame is recorded as its bytes (the wire form is
  their base64 text). The \<open>for\<close> loop advances \<open>offset\<close> by the chunk size, so with a
  chunk size of zero it would not end: the loop is a partial function, and \<open>None\<close>
  stands for a call that does not return.
\<close>

datatype readyState = CONNECTING | OPEN | CLOSING | CLOSED

definition CHUNK_SIZE :: nat where
  "CHUNK_SIZE = 9600"

partial_function (option) chunkLoop :: "nat \<Rightarrow> buffer \<Rightarrow> nat \<Rightarrow> buffer list \<Rightarrow> buffer list option" where
  "chunkLoop C audioBuffer offset frames =
     (if offset < length audioBuffer
      then chunkLoop C audioBuffer (offset + C)
             (frames @ [subarray audioBuffer offset (offset + C)])
      else Some frames)"

definition sendAudioInChunks ::
  "nat \<Rightarrow> readyState option \<Rightarrow> buffer \<Rightarrow> buffer list \<Rightarrow> buffer list option" where
  "sendAudioInChunks C humeSocket audioBuffer frames =
     (if humeSocket \<noteq> Some OPEN then Some frames
      else if length audioBuffer \<le> C then Some (frames @ [audioBuffer])
      else chunkLoop C audioBuffer 0 frames)"

text \<open>
  The frames of a buffer for a chunk size: frame \<open>i\<close> is the slice of the buffer from
  offset \<open>i * C\<close> to \<open>i * C + C\<close>, for \<open>i\<close> below the length divided by \<open>C\<close>, rounded up.
\<close>

definition frames_of :: "nat \<Rightarrow> buffer \<Rightarrow> buffer list" where
  "frames_of C buf =
     map (\<lambda>i. subarray buf (i * C) (i * C + C)) [0 ..< (length buf + C - 1) div C]"

section \<open>Sockets\<close>

text \<open>
  A socket of the \<open>ws\<close> library, as far as the session sees it: its \<open>readyState\<close>, the
  messages it accepted for transmission, and the messages passed to \<open>send\<close> after it
  left the open state, which the library discards. \<open>send\<close> raises on a socket that is
  still connecting; \<open>close\<close> never raises and does nothing on a closing or closed
  socket.
\<close>

record 'm socket =
  readyState :: readyState
  sent :: "'m list"
  discarded :: "'m list"

definition ws_send :: "'m socket \<Rightarrow> 'm \<Rightarrow> error + 'm socket" where
  "ws_send sock m =
     (case readyState sock of
        CONNECTING \<Rightarrow> Inl NotOpenError
      | OPEN \<Rightarrow> Inr (sock\<lparr>sent := sent sock @ [m]\<rparr>)
      | CLOSING \<Rightarrow> Inr (sock\<lparr>discarded := discarded sock @ [m]\<rparr>)
      | CLOSED \<Rightarrow> Inr (sock\<lparr>discarded := discarded sock @ [m]\<rparr>))"

definition ws_close :: "'m socket \<Rightarrow> 'm socket" where
  "ws_close sock =
     (case readyState sock of
        CONNECTING \<Rightarrow> sock\<lparr>readyState := CLOSING\<rparr>
      | OPEN \<Rightarrow> sock\<lparr>readyState := CLOSING\<rparr>
      | CLOSING \<Rightarrow> sock
      | CLOSED \<Rightarrow> sock)"

definition new_socket :: "readyState \<Rightarrow> 'm socket" where
  "new_socket st = \<lparr>readyState = st, sent = [], discarded = []\<rparr>"

text \<open>
  What arrives on a socket is text; \<open>JSON.parse\<close> either raises a syntax error or
  returns the message.
\<close>

datatype 'm wire = Malformed | Parsed 'm

section \<open>The session of index.js\<close>

subsection \<open>Messages\<close>

text \<open>
  Client messages by their \<open>type\<close> field; \<open>uuid\<close> and \<open>audio\<close> are strings or absent.
  Upstream messages are those of the provider's protocol; a tool call carries
  \<open>name\<close>, \<open>tool_call_id\<close> and \<open>parameters\<close>, in this order.
\<close>

datatype client_in =
    Init "string option"
  | Audio "string option"
  | OtherClient

datatype upstream_in =
    AudioOutput string
  | UserInterruption
  | UserMessage string
  | AssistantMessage string
  | ToolCall string string string
  | OtherUpstream

text \<open>
  The \<open>content\<close> of a tool response is JSON text: \<open>ErrorContent m\<close> is the text of
  the object \<open>{error: m}\<close>, \<open>ResultContent r\<close> the text \<open>r\<close> of a handler's result.
\<close>

datatype content = ErrorContent string | ResultContent string

text \<open>
  Sent upstream: \<open>audio_input\<close> (\<open>data\<close>, \<open>custom_session_id\<close>), \<open>assistant_input\<close>
  (\<open>custom_session_id\<close>, \<open>text\<close>) and \<open>tool_response\<close> (\<open>tool_call_id\<close>, \<open>content\<close>).
  Sent to the client: \<open>audio\<close>, \<open>interruption\<close>, \<open>transcript\<close> (\<open>role\<close>, \<open>text\<close>) and
  \<open>error\<close> (\<open>message\<close>).
\<close>

datatype upstream_out =
    AudioInput string "string option"
  | AssistantInput "string option" string
  | ToolResponse string content

datatype client_out =
    AudioToClient string
  | Interruption
  | Transcript string string
  | ErrorToClient string

subsection \<open>Environment and state\<close>

text \<open>
  A tool handler, called with the session identity and the parameter text, settles
  later: it resolves with the JSON text of its result, or is rejected with a message
  (a parameter text that \<open>JSON.parse\<close> refuses is rejected in the same \<open>try\<close> block, with
  the syntax error's message).

  The registry \<open>getToolHandler\<close> (module \<open>loadTools\<close>) and the resampling behind
  \<open>convertProviderTo8k\<close> are parameters; \<open>convertProviderTo8k\<close> maps the base64 text
  of an upstream payload to the base64 text for the client, or raises. Two flags say
  whether \<open>loadTools()\<close> and the \<open>WebSocket\<close> constructor raise at dial time.
\<close>

datatype outcome = Resolved string | Rejected string

record env =
  HUMEAI_WELCOME_MESSAGE :: string
  loadTools_throws :: bool
  WebSocket_throws :: bool
  getToolHandler :: "string \<Rightarrow> (string option \<Rightarrow> string \<Rightarrow> outcome) option"
  convertProviderTo8k :: "string \<Rightarrow> string option"

text \<open>
  The variables of one \<open>handleClientConnection\<close> call. \<open>ws\<close> holds the index of the
  current upstream socket in \<open>upstreams\<close>, the list of all upstream sockets this session
  has dialled (the handlers of every one of them use the shared variable \<open>ws\<close>).
  \<open>pending\<close> holds the tool calls whose handler has not settled yet, \<open>errors\<close> the
  lines written with \<open>console.error\<close>.
\<close>

record session =
  sessionUuid :: "string option"
  ws :: "nat option"
  audioBuffer :: "string list"
  upstreams :: "upstream_out socket list"
  clientWs :: "client_out socket"
  pending :: "(string \<times> string \<times> outcome) list"
  errors :: "string list"

definition new_session :: session where
  "new_session =
     \<lparr>sessionUuid = None, ws = None, audioBuffer = [], upstreams = [],
      clientWs = new_socket OPEN, pending = [], errors = []\<rparr>"

definition console_error :: "string \<Rightarrow> session \<Rightarrow> session" where
  "console_error line s = s\<lparr>errors := errors s @ [line]\<rparr>"

text \<open>\<open>ws.send(m)\<close> on the shared variable: a type error when it is \<open>null\<close>.\<close>

definition ws_send_current :: "session \<Rightarrow> upstream_out \<Rightarrow> error + session" where
  "ws_send_current s m =
     (case ws s of
        None \<Rightarrow> Inl TypeError
      | Some k \<Rightarrow>
          (case ws_send (upstreams s ! k) m of
             Inl e \<Rightarrow> Inl e
           | Inr sock \<Rightarrow> Inr (s\<lparr>upstreams := (upstreams s)[k := sock]\<rparr>)))"

definition clientWs_send :: "session \<Rightarrow> client_out \<Rightarrow> error + session" where
  "clientWs_send s m =
     (case ws_send (clientWs s) m of
        Inl e \<Rightarrow> Inl e
      | Inr sock \<Rightarrow> Inr (s\<lparr>clientWs := sock\<rparr>))"

subsection \<open>Handlers\<close>

definition initializeHumeAIConnection :: "env \<Rightarrow> session \<Rightarrow> error + session" where
  "initializeHumeAIConnection env s =
     (let s1 = (if loadTools_throws env
                then console_error ''Error loading tools for Hume:'' s else s)
      in if WebSocket_throws env
         then clientWs_send (console_error ''Failed to initialize HumeAI connection:'' s1)
                (ErrorToClient ''Failed to connect to HumeAI API'')
         else Inr (s1\<lparr>upstreams := upstreams s1 @ [new_socket CONNECTING],
                       ws := Some (length (upstreams s1))\<rparr>))"

text \<open>\<open>ws && ws.readyState === WebSocket.OPEN\<close>\<close>

definition ws_is_open :: "session \<Rightarrow> bool" where
  "ws_is_open s =
     (case ws s of None \<Rightarrow> False | Some k \<Rightarrow> readyState (upstreams s ! k) = OPEN)"

text \<open>
  The client's message handler has no \<open>try\<close> block: what \<open>JSON.parse\<close>, the dial or
  \<open>ws.send\<close> raise leaves the handler (\<open>Inl\<close>). An empty or absent \<open>audio\<close> is falsy.
\<close>

fun onClientMessage :: "env \<Rightarrow> session \<Rightarrow> client_in wire \<Rightarrow> error + session" where
  "onClientMessage env s Malformed = Inl SyntaxError"
| "onClientMessage env s (Parsed (Init uuid)) =
     initializeHumeAIConnection env (s\<lparr>sessionUuid := uuid\<rparr>)"
| "onClientMessage env s (Parsed (Audio None)) = Inr s"
| "onClientMessage env s (Parsed (Audio (Some audioBase64))) =
     (if audioBase64 = [] then Inr s
      else if ws_is_open s
      then ws_send_current s (AudioInput audioBase64 (sessionUuid s))
      else Inr (s\<lparr>audioBuffer := audioBuffer s @ [audioBase64]\<rparr>))"
| "onClientMessage env s (Parsed OtherClient) = Inr s"

text \<open>
  The \<open>open\<close> handler. The queue holds base64 strings, on which
  \<open>toString("base64")\<close> is the identity. The \<open>forEach\<close> stops at the first \<open>send\<close> that
  raises, before the queue is cleared.
\<close>

fun sendBuffered :: "session \<Rightarrow> string list \<Rightarrow> error + session" where
  "sendBuffered s [] = Inr s"
| "sendBuffered s (chunk # chunks) =
     (case ws_send_current s (AudioInput chunk (sessionUuid s)) of
        Inl e \<Rightarrow> Inl e
      | Inr s' \<Rightarrow> sendBuffered s' chunks)"

definition onUpstreamOpen :: "env \<Rightarrow> session \<Rightarrow> error + session" where
  "onUpstreamOpen env s =
     (case (if audioBuffer s \<noteq> []
            then (case sendBuffered s (audioBuffer s) of
                    Inl e \<Rightarrow> Inl e
                  | Inr s' \<Rightarrow> Inr (s'\<lparr>audioBuffer := []\<rparr>))
            else Inr s) of
        Inl e \<Rightarrow> Inl e
      | Inr s1 \<Rightarrow>
          ws_send_current s1 (AssistantInput (sessionUuid s1) (HUMEAI_WELCOME_MESSAGE env)))"

text \<open>
  The upstream message handler is one \<open>try\<close> block whose \<open>catch\<close> only logs. A tool call
  with a registered handler suspends at \<open>await\<close>: the call joins \<open>pending\<close> with the
  outcome its handler will settle with, and \<open>toolSettled\<close> is the rest of the handler,
  run when that happens, on the state of that moment.
\<close>

definition caught :: "session \<Rightarrow> error + session \<Rightarrow> session" where
  "caught s r =
     (case r of
        Inl e \<Rightarrow> console_error ''Error parsing HumeAI message:'' s
      | Inr s' \<Rightarrow> s')"

fun onUpstreamMessage :: "env \<Rightarrow> session \<Rightarrow> upstream_in wire \<Rightarrow> session" where
  "onUpstreamMessage env s Malformed = console_error ''Error parsing HumeAI message:'' s"
| "onUpstreamMessage env s (Parsed (AudioOutput d)) =
     (case convertProviderTo8k env d of
        None \<Rightarrow> console_error ''Error parsing HumeAI message:'' s
      | Some audio \<Rightarrow> caught s (clientWs_send s (AudioToClient audio)))"
| "onUpstreamMessage env s (Parsed UserInterruption) =
     caught s (clientWs_send s Interruption)"
| "onUpstreamMessage env s (Parsed (UserMessage c)) =
     caught s (clientWs_send s (Transcript ''user'' c))"
| "onUpstreamMessage env s (Parsed (AssistantMessage c)) =
     caught s (clientWs_send s (Transcript ''agent'' c))"
| "onUpstreamMessage env s (Parsed (ToolCall name call_id parameters)) =
     (case getToolHandler env name of
        None \<Rightarrow>
          (let s1 = console_error (''No handler found for tool: '' @ name) s
           in caught s1 (ws_send_current s1
                (ToolResponse call_id (ErrorContent (''Tool '' @ name @ '' not found'')))))
      | Some handler \<Rightarrow>
          s\<lparr>pending := pending s @ [(call_id, name, handler (sessionUuid s) parameters)]\<rparr>)"
| "onUpstreamMessage env s (Parsed OtherUpstream) = s"

definition message_of :: "error \<Rightarrow> string" where
  "message_of e =
     (case e of
        TypeError \<Rightarrow> ''Cannot read properties of null (reading 'send')''
      | NotOpenError \<Rightarrow> ''WebSocket is not open: readyState 0 (CONNECTING)''
      | SyntaxError \<Rightarrow> ''Unexpected token''
      | RangeError \<Rightarrow> ''The value of offset is out of range'')"

definition toolFailed :: "session \<Rightarrow> string \<Rightarrow> string \<Rightarrow> string \<Rightarrow> session" where
  "toolFailed s call_id name msg =
     (let s1 = console_error (''Error executing tool '' @ name @ '':'') s
      in caught s1 (ws_send_current s1
           (ToolResponse call_id
              (ErrorContent (''Error executing tool '' @ name @ '': '' @ msg)))))"

fun toolSettled :: "session \<Rightarrow> string \<times> string \<times> outcome \<Rightarrow> session" where
  "toolSettled s (call_id, name, Resolved result) =
     (case ws_send_current s (ToolResponse call_id (ResultContent result)) of
        Inr s' \<Rightarrow> s'
      | Inl e \<Rightarrow> toolFailed s call_id name (message_of e))"
| "toolSettled s (call_id, name, Rejected msg) = toolFailed s call_id name msg"

definition cleanup :: "session \<Rightarrow> session" where
  "cleanup s =
     (let s1 = (case ws s of
                  None \<Rightarrow> s
                | Some k \<Rightarrow> s\<lparr>upstreams := (upstreams s)[k := ws_close (upstreams s ! k)],
                               ws := None\<rparr>);
          s2 = (if readyState (clientWs s1) = OPEN
                then s1\<lparr>clientWs := ws_close (clientWs s1)\<rparr> else s1)
      in s2\<lparr>audioBuffer := []\<rparr>)"

subsection \<open>Events\<close>

text \<open>
  The events the runtime delivers to the session. An upstream event names the socket
  it happens on. Before it calls the handler the library has moved the socket's
  \<open>readyState\<close>: to \<open>OPEN\<close> for \<open>open\<close>, to \<open>CLOSED\<close> for \<open>close\<close>, and an \<open>error\<close> is
  emitted on a socket that is being closed. An event happens only on a socket in a
  state that allows it (\<open>enabled\<close>); \<open>step\<close> leaves the state alone otherwise.
  \<open>ToolSettled i\<close> is the settling of the \<open>i\<close>-th pending tool call.
\<close>

datatype event =
    ClientMessage "client_in wire"
  | ClientClose
  | ClientError
  | UpstreamOpen nat
  | UpstreamMessage nat "upstream_in wire"
  | UpstreamError nat
  | UpstreamClose nat
  | ToolSettled nat

definition set_upstream_state :: "nat \<Rightarrow> readyState \<Rightarrow> session \<Rightarrow> session" where
  "set_upstream_state k st s =
     s\<lparr>upstreams := (upstreams s)[k := (upstreams s ! k)\<lparr>readyState := st\<rparr>]\<rparr>"

definition set_client_state :: "readyState \<Rightarrow> session \<Rightarrow> session" where
  "set_client_state st s = s\<lparr>clientWs := (clientWs s)\<lparr>readyState := st\<rparr>\<rparr>"

fun enabled :: "session \<Rightarrow> event \<Rightarrow> bool" where
  "enabled s (ClientMessage w) =
     (readyState (clientWs s) = OPEN \<or> readyState (clientWs s) = CLOSING)"
| "enabled s ClientClose = (readyState (clientWs s) \<noteq> CLOSED)"
| "enabled s ClientError = (readyState (clientWs s) \<noteq> CLOSED)"
| "enabled s (UpstreamOpen k) =
     (k < length (upstreams s) \<and> readyState (upstreams s ! k) = CONNECTING)"
| "enabled s (UpstreamMessage k w) =
     (k < length (upstreams s)
      \<and> (readyState (upstreams s ! k) = OPEN \<or> readyState (upstreams s ! k) = CLOSING))"
| "enabled s (UpstreamError k) =
     (k < length (upstreams s) \<and> readyState (upstreams s ! k) \<noteq> CLOSED)"
| "enabled s (UpstreamClose k) =
     (k < length (upstreams s) \<and> readyState (upstreams s ! k) \<noteq> CLOSED)"
| "enabled s (ToolSettled i) = (i < length (pending s))"

fun deliver :: "env \<Rightarrow> session \<Rightarrow> event \<Rightarrow> error + session" where
  "deliver env s (ClientMessage w) = onClientMessage env s w"
| "deliver env s ClientClose = Inr (cleanup (set_client_state CLOSED s))"
| "deliver env s ClientError =
     Inr (cleanup (console_error ''Client WebSocket error:'' (set_client_state CLOSING s)))"
| "deliver env s (UpstreamOpen k) = onUpstreamOpen env (set_upstream_state k OPEN s)"
| "deliver env s (UpstreamMessage k w) = Inr (onUpstreamMessage env s w)"
| "deliver env s (UpstreamError k) =
     clientWs_send (console_error ''HumeAI WebSocket error:'' (set_upstream_state k CLOSING s))
       (ErrorToClient ''Connection error with HumeAI API'')"
| "deliver env s (UpstreamClose k) = Inr (cleanup (set_upstream_state k CLOSED s))"
| "deliver env s (ToolSettled i) =
     Inr (toolSettled (s\<lparr>pending := take i (pending s) @ drop (Suc i) (pending s)\<rparr>)
            (pending s ! i))"

definition step :: "env \<Rightarrow> session \<Rightarrow> event \<Rightarrow> error + session" where
  "step env s e = (if enabled s e then deliver env s e else Inr s)"

fun run :: "env \<Rightarrow> session \<Rightarrow> event list \<Rightarrow> error + session" where
  "run env s [] = Inr s"
| "run env s (e # es) =
     (case step env s e of Inl x \<Rightarrow> Inl x | Inr s' \<Rightarrow> run env s' es)"

subsection \<open>Notions and inputs of the properties\<close>

text \<open>
  The frames of a sequence of \<open>audio\<close> fields: the payloads that are present and not
  empty, in their order.
\<close>

fun frames_in :: "string option list \<Rightarrow> string list" where
  "frames_in [] = []"
| "frames_in (None # msgs) = frames_in msgs"
| "frames_in (Some a # msgs) = (if a = [] then frames_in msgs else a # frames_in msgs)"

definition audio_messages :: "string option list \<Rightarrow> event list" where
  "audio_messages msgs = map (\<lambda>a. ClientMessage (Parsed (Audio a))) msgs"

text \<open>A socket on which \<open>close\<close> has been called, or which has closed.\<close>

definition closing :: "'m socket \<Rightarrow> bool" where
  "closing sock = (readyState sock = CLOSING \<or> readyState sock = CLOSED)"

text \<open>
  An environment with two tools, \<open>echo\<close>, which resolves with its parameters, and
  \<open>fail\<close>, which is rejected; a session that has queued one frame and dialled; and the
  same session with the upstream socket open and the queue flushed.
\<close>

definition example_env :: env where
  "example_env =
     \<lparr>HUMEAI_WELCOME_MESSAGE = ''Hello, how can I help you today?'',
      loadTools_throws = False,
      WebSocket_throws = False,
      getToolHandler =
        (\<lambda>name. if name = ''echo'' then Some (\<lambda>uuid parameters. Resolved parameters)
                else if name = ''fail'' then Some (\<lambda>uuid parameters. Rejected ''boom'')
                else None),
      convertProviderTo8k = Some\<rparr>"

definition connecting_session :: session where
  "connecting_session =
     \<lparr>sessionUuid = Some ''u1'', ws = Some 0, audioBuffer = [''AAAA''],
      upstreams = [new_socket CONNECTING], clientWs = new_socket OPEN,
      pending = [], errors = []\<rparr>"

definition ready_session :: session where
  "ready_session =
     \<lparr>sessionUuid = Some ''u1'', ws = Some 0, audioBuffer = [],
      upstreams =
        [\<lparr>readyState = OPEN,
          sent = [AudioInput ''AAAA'' (Some ''u1''),
                  AssistantInput (Some ''u1'') ''Hello, how can I help you today?''],
          discarded = []\<rparr>],
      clientWs = new_socket OPEN, pending = [], errors = []\<rparr>"

text \<open>The ready session after its client socket has closed.\<close>

definition client_closed_session :: session where
  "client_closed_session =
     ready_session
       \<lparr>ws := None,
        upstreams :=
          [\<lparr>readyState = CLOSING,
            sent = [AudioInput ''AAAA'' (Some ''u1''),
                    AssistantInput (Some ''u1'') ''Hello, how can I help you today?''],
            discarded = []\<rparr>],
        clientWs := new_socket CLOSED\<rparr>"

text \<open>
  \<open>keeps k s s'\<close>: from \<open>s\<close> to \<open>s'\<close> no upstream socket is forgotten; a client socket that
  is closing stays so and transmits nothing; the same holds of the upstream socket \<open>k\<close>;
  and if \<open>ws\<close> is not the upstream socket \<open>k\<close>, it does not become so and \<open>send\<close> is not
  called on that socket.
\<close>

definition keeps :: "nat \<Rightarrow> session \<Rightarrow> session \<Rightarrow> bool" where
  "keeps k s s' \<longleftrightarrow>
     length (upstreams s) \<le> length (upstreams s')
     \<and> (closing (clientWs s)
          \<longrightarrow> closing (clientWs s') \<and> sent (clientWs s') = sent (clientWs s))
     \<and> (k < length (upstreams s) \<longrightarrow>
          (closing (upstreams s ! k)
             \<longrightarrow> closing (upstreams s' ! k)
                 \<and> sent (upstreams s' ! k) = sent (upstreams s ! k))
          \<and> (ws s \<noteq> Some k
             \<longrightarrow> ws s' \<noteq> Some k
                 \<and> sent (upstreams s' ! k) = sent (upstreams s ! k)
                 \<and> discarded (upstreams s' ! k) = discarded (upstreams s ! k)))"

section \<open>The first handler of index.js\<close>

text \<open>
  The first \<open>handleClientConnection\<close> of index.js never assigns \<open>ws\<close>, so its
  \<open>audio\<close> branch sends nothing; its message handler is one \<open>try\<close> block.
\<close>

record session_v1 =
  v1_sessionUuid :: "string option"
  v1_clientWs :: "client_out socket"
  v1_errors :: "string list"

fun onClientMessage_v1 :: "session_v1 \<Rightarrow> client_in wire \<Rightarrow> session_v1" where
  "onClientMessage_v1 s Malformed =
     s\<lparr>v1_errors := v1_errors s @ [''Error processing client message:'']\<rparr>"
| "onClientMessage_v1 s (Parsed (Init uuid)) = s\<lparr>v1_sessionUuid := uuid\<rparr>"
| "onClientMessage_v1 s (Parsed (Audio audio)) = s"
| "onClientMessage_v1 s (Parsed OtherClient) = s"

definition cleanup_v1 :: "session_v1 \<Rightarrow> session_v1" where
  "cleanup_v1 s = s\<lparr>v1_clientWs := ws_close (v1_clientWs s)\<rparr>"

section \<open>The session of index.ts\<close>

text \<open>
  \<open>humeSocket\<close> is \<open>null\<close> or the upstream socket the variable holds (a second \<open>init\<close>
  replaces it), of which the session reads the \<open>readyState\<close>; \<open>audioInputs\<close> are the
  frames passed to \<open>sendAudioInput\<close> and \<open>sessionSettings\<close> counts the calls of
  \<open>sendSessionSettings\<close>. Audio payloads are
  recorded as the bytes their base64 text stands for; the \<open>audio\<close> of a client message
  may be absent, and \<open>Buffer.from\<close> raises a type error on it. \<open>ts_connect\<close> is the
  outcome of the provider's \<open>connect\<close>: the state of the new socket, or \<open>None\<close> when it
  is rejected.
\<close>

datatype ts_client_in = TsAudio "buffer option" | TsInit | TsOther

datatype hume_in = HumeError | HumeAudioOutput buffer | HumeOther

record ts_session =
  humeSocket :: "readyState option"
  audioInputs :: "buffer list"
  sessionSettings :: nat
  queued :: "buffer option list"
  ts_clientWs :: "buffer socket"
  ts_errors :: "string list"

definition new_ts_session :: ts_session where
  "new_ts_session =
     \<lparr>humeSocket = None, audioInputs = [], sessionSettings = 0, queued = [],
      ts_clientWs = new_socket OPEN, ts_errors = []\<rparr>"

definition open_ts_session :: ts_session where
  "open_ts_session = new_ts_session\<lparr>humeSocket := Some OPEN\<rparr>"

definition ts_console_error :: "string \<Rightarrow> ts_session \<Rightarrow> ts_session" where
  "ts_console_error line s = s\<lparr>ts_errors := ts_errors s @ [line]\<rparr>"

text \<open>
  The loop of \<open>flushQueue\<close>: the frames sent, and whether the loop ran to its end
  (\<open>False\<close> when \<open>Buffer.from\<close> raised on the way).
\<close>

fun sendQueued ::
  "readyState option \<Rightarrow> buffer option list \<Rightarrow> buffer list \<Rightarrow> (buffer list \<times> bool) option" where
  "sendQueued h [] frames = Some (frames, True)"
| "sendQueued h (None # q) frames = Some (frames, False)"
| "sendQueued h (Some clientAudio # q) frames =
     (case sendAudioInChunks CHUNK_SIZE h clientAudio frames of
        None \<Rightarrow> None
      | Some frames' \<Rightarrow> sendQueued h q frames')"

definition flushQueue :: "ts_session \<Rightarrow> ts_session option" where
  "flushQueue s =
     (if humeSocket s \<noteq> Some OPEN then Some s
      else if queued s = [] then Some s
      else (case sendQueued (humeSocket s) (queued s) (audioInputs s) of
              None \<Rightarrow> None
            | Some (frames', finished) \<Rightarrow>
                Some (if finished then s\<lparr>audioInputs := frames', queued := []\<rparr>
                      else ts_console_error ''Error flushing audio queue:''
                             (s\<lparr>audioInputs := frames'\<rparr>))))"

text \<open>The \<open>catch\<close> of the client's message handler logs and closes the client socket.\<close>

definition ts_catch :: "ts_session \<Rightarrow> ts_session" where
  "ts_catch s =
     (ts_console_error ''Error processing message from client:'' s)
       \<lparr>ts_clientWs := ws_close (ts_clientWs s)\<rparr>"

fun ts_onClientMessage ::
  "readyState option \<Rightarrow> ts_session \<Rightarrow> ts_client_in wire \<Rightarrow> ts_session option" where
  "ts_onClientMessage ts_connect s Malformed = Some (ts_catch s)"
| "ts_onClientMessage ts_connect s (Parsed (TsAudio audio)) =
     flushQueue (s\<lparr>queued := queued s @ [audio]\<rparr>)"
| "ts_onClientMessage ts_connect s (Parsed TsInit) =
     (case ts_connect of
        None \<Rightarrow> Some (ts_catch s)
      | Some st \<Rightarrow>
          (let s1 = s\<lparr>humeSocket := Some st\<rparr>
           in if st = OPEN then flushQueue s1 else Some s1))"
| "ts_onClientMessage ts_connect s (Parsed TsOther) = Some s"

definition ts_onClientClose :: "ts_session \<Rightarrow> ts_session" where
  "ts_onClientClose s =
     (if humeSocket s = Some OPEN then s\<lparr>humeSocket := Some CLOSING\<rparr> else s)"

definition ts_onHumeOpen :: "ts_session \<Rightarrow> ts_session" where
  "ts_onHumeOpen s = s\<lparr>sessionSettings := Suc (sessionSettings s)\<rparr>"

fun ts_onHumeMessage :: "ts_session \<Rightarrow> hume_in \<Rightarrow> ts_session" where
  "ts_onHumeMessage s HumeError = ts_console_error ''Error from Hume API:'' s"
| "ts_onHumeMessage s (HumeAudioOutput providerAudio) =
     (case parseWav providerAudio of
        Inl e \<Rightarrow> ts_console_error ''Error processing audio from Hume:'' s
      | Inr None \<Rightarrow> ts_console_error ''Failed to parse WAV from Hume'' s
      | Inr (Some wavInfo) \<Rightarrow>
          (if readyState (ts_clientWs s) = OPEN
           then s\<lparr>ts_clientWs := (ts_clientWs s)
                    \<lparr>sent := sent (ts_clientWs s) @ [pcmData wavInfo]\<rparr>\<rparr>
           else s))"
| "ts_onHumeMessage s HumeOther = s"

definition ts_onHumeError :: "ts_session \<Rightarrow> ts_session" where
  "ts_onHumeError s = ts_console_error ''Error from Hume WebSocket:'' s"

definition ts_onHumeClose :: "ts_session \<Rightarrow> ts_session" where
  "ts_onHumeClose s =
     (if readyState (ts_clientWs s) = OPEN
      then s\<lparr>ts_clientWs := ws_close (ts_clientWs s)\<rparr> else s)"

text \<open>
  The events of the session, as for index.js: the library moves the \<open>readyState\<close>
  before it calls the \<open>open\<close> and \<open>close\<close> handlers, and an event happens only in a
  state that allows it.
\<close>

datatype ts_event =
    TsClientMessage "ts_client_in wire"
  | TsClientClose
  | TsHumeOpen
  | TsHumeMessage hume_in
  | TsHumeError
  | TsHumeClose

fun ts_enabled :: "ts_session \<Rightarrow> ts_event \<Rightarrow> bool" where
  "ts_enabled s (TsClientMessage w) =
     (readyState (ts_clientWs s) = OPEN \<or> readyState (ts_clientWs s) = CLOSING)"
| "ts_enabled s TsClientClose = (readyState (ts_clientWs s) \<noteq> CLOSED)"
| "ts_enabled s TsHumeOpen = (humeSocket s = Some CONNECTING)"
| "ts_enabled s (TsHumeMessage m) =
     (humeSocket s = Some OPEN \<or> humeSocket s = Some CLOSING)"
| "ts_enabled s TsHumeError = (humeSocket s \<noteq> None \<and> humeSocket s \<noteq> Some CLOSED)"
| "ts_enabled s TsHumeClose = (humeSocket s \<noteq> None \<and> humeSocket s \<noteq> Some CLOSED)"

fun ts_deliver :: "readyState option \<Rightarrow> ts_session \<Rightarrow> ts_event \<Rightarrow> ts_session option" where
  "ts_deliver ts_connect s (TsClientMessage w) = ts_onClientMessage ts_connect s w"
| "ts_deliver ts_connect s TsClientClose =
     Some (ts_onClientClose
             (s\<lparr>ts_clientWs := (ts_clientWs s)\<lparr>readyState := CLOSED\<rparr>\<rparr>))"
| "ts_deliver ts_connect s TsHumeOpen = Some (ts_onHumeOpen (s\<lparr>humeSocket := Some OPEN\<rparr>))"
| "ts_deliver ts_connect s (TsHumeMessage m) = Some (ts_onHumeMessage s m)"
| "ts_deliver ts_connect s TsHumeError = Some (ts_onHumeError s)"
| "ts_deliver ts_connect s TsHumeClose =
     Some (ts_onHumeClose (s\<lparr>humeSocket := Some CLOSED\<rparr>))"

definition ts_step :: "readyState option \<Rightarrow> ts_session \<Rightarrow> ts_event \<Rightarrow> ts_session option" where
  "ts_step ts_connect s e = (if ts_enabled s e then ts_deliver ts_connect s e else Some s)"

section \<open>Properties of the container parsers\<close>

subsection \<open>Searching a marker\<close>

lemma indexOf_at_None:
  "indexOf_at xs m i = None \<longleftrightarrow> (\<forall>j < length xs. take (length m) (drop j xs) \<noteq> m)"
proof (induction xs arbitrary: i)
  case Nil
  then show ?case by simp
next
  case (Cons x xs)
  show ?case
  proof (cases "take (length m) (x # xs) = m")
    case True
    then show ?thesis by auto
  next
    case False
    have "(\<forall>j < length (x # xs). take (length m) (drop j (x # xs)) \<noteq> m)
          \<longleftrightarrow> (\<forall>j < length xs. take (length m) (drop j xs) \<noteq> m)"
      using False by (auto simp: less_Suc_eq_0_disj)
    with False Cons.IH show ?thesis by simp
  qed
qed

lemma indexOf_at_Some:
  "indexOf_at xs m i = Some k \<Longrightarrow>
     i \<le> k \<and> k - i < length xs \<and> take (length m) (drop (k - i) xs) = m
     \<and> (\<forall>j < k - i. take (length m) (drop j xs) \<noteq> m)"
proof (induction xs arbitrary: i)
  case Nil
  then show ?case by simp
next
  case (Cons x xs)
  show ?case
  proof (cases "take (length m) (x # xs) = m")
    case True
    with Cons.prems show ?thesis by auto
  next
    case False
    with Cons.prems have r: "indexOf_at xs m (Suc i) = Some k" by simp
    from Cons.IH[OF r] have ih: "Suc i \<le> k" "k - Suc i < length xs"
      "take (length m) (drop (k - Suc i) xs) = m"
      "\<forall>j < k - Suc i. take (length m) (drop j xs) \<noteq> m" by auto
    from ih(1) have e: "k - i = Suc (k - Suc i)" by arith
    show ?thesis using ih False unfolding e
      by (auto simp: less_Suc_eq_0_disj)
  qed
qed

lemma take_drop_prefix:
  assumes "j + n \<le> N"
  shows "take n (drop j (take N buf)) = take n (drop j buf)"
proof -
  have "drop j (take N buf) = take (N - j) (drop j buf)" by (simp add: drop_take)
  moreover have "n \<le> N - j" using assms by arith
  ultimately show ?thesis by (simp add: min_absorb1)
qed

text \<open>
  \<open>indexOf\<close> on the first \<open>N\<close> bytes finds nothing exactly when no occurrence of the
  marker lies within these bytes.
\<close>

lemma indexOf_prefix_None:
  assumes "m \<noteq> []"
  shows "indexOf (subarray buf 0 (min (length buf) N)) m = None \<longleftrightarrow> \<not> marker_within buf m N"
proof -
  let ?L = "min (length buf) N"
  have len: "length (take ?L buf) = ?L" by simp
  have "indexOf (subarray buf 0 ?L) m = None
        \<longleftrightarrow> (\<forall>j < ?L. take (length m) (drop j (take ?L buf)) \<noteq> m)"
    unfolding indexOf_def subarray_def using indexOf_at_None[of "take ?L buf" m 0] len by simp
  also have "\<dots> \<longleftrightarrow> (\<forall>j. j + length m \<le> ?L \<longrightarrow> take (length m) (drop j buf) \<noteq> m)"
  proof (intro iffI allI impI)
    fix j
    assume a: "\<forall>j < ?L. take (length m) (drop j (take ?L buf)) \<noteq> m"
      and b: "j + length m \<le> ?L"
    from b assms have "j < ?L" by (cases m) auto
    with a have "take (length m) (drop j (take ?L buf)) \<noteq> m" by blast
    then show "take (length m) (drop j buf) \<noteq> m"
      by (simp only: take_drop_prefix[OF b, of buf] not_False_eq_True)
  next
    fix j
    assume a: "\<forall>j. j + length m \<le> ?L \<longrightarrow> take (length m) (drop j buf) \<noteq> m"
      and b: "j < ?L"
    show "take (length m) (drop j (take ?L buf)) \<noteq> m"
    proof (cases "j + length m \<le> ?L")
      case True
      from a True have "take (length m) (drop j buf) \<noteq> m" by blast
      then show ?thesis by (simp only: take_drop_prefix[OF True, of buf] not_False_eq_True)
    next
      case False
      have "length (take (length m) (drop j (take ?L buf))) \<le> ?L - j" by simp
      also have "\<dots> < length m" using False b by arith
      finally show ?thesis by auto
    qed
  qed
  also have "\<dots> \<longleftrightarrow> \<not> marker_within buf m N"
  proof -
    have "j < ?L" if "j + length m \<le> ?L" for j
      using that assms by (cases m) auto
    then show ?thesis
      unfolding marker_within_def occurs_at_def subarray_def by auto
  qed
  finally show ?thesis .
qed

lemma indexOf_prefix_Some:
  assumes "indexOf (subarray buf 0 (min (length buf) N)) m = Some k"
  shows "k < length buf"
proof -
  from indexOf_at_Some[OF assms[unfolded indexOf_def]]
  have "k < length (subarray buf 0 (min (length buf) N))" by simp
  then show ?thesis by (simp add: subarray_def)
qed

lemma Buffer_from_literals:
  "Buffer_from ''RIFF'' = [82, 73, 70, 70]"
  "Buffer_from ''RIFX'' = [82, 73, 70, 88]"
  "Buffer_from ''WAVE'' = [87, 65, 86, 69]"
  "Buffer_from ''JUNK'' = [74, 85, 78, 75]"
  "Buffer_from ''fmt '' = [102, 109, 116, 32]"
  "Buffer_from ''data'' = [100, 97, 116, 97]"
  by (simp_all add: Buffer_from_def)

lemma length_DATA_MARKER: "length DATA_MARKER = 4" "DATA_MARKER \<noteq> []"
  by (simp_all add: DATA_MARKER_def Buffer_from_literals)

lemma stripWavHeader_lib_unchanged_iff:
  "stripWavHeader_lib buf = buf
   \<longleftrightarrow> indexOf (subarray buf 0 (min (length buf) 200)) DATA_MARKER = None"
proof (cases "indexOf (subarray buf 0 (min (length buf) 200)) DATA_MARKER")
  case None
  then show ?thesis by (simp add: stripWavHeader_lib_def)
next
  case (Some k)
  from indexOf_prefix_Some[OF Some] have "length (drop (k + 8) buf) < length buf" by simp
  then have "drop (k + 8) buf \<noteq> buf" by (metis less_irrefl)
  with Some show ?thesis by (simp add: stripWavHeader_lib_def subarray_from_def)
qed

subsection \<open>The loop over start positions\<close>

lemma findDataLoop_stop:
  "\<not> i < min (length buffer) 200 \<Longrightarrow> findDataLoop buffer i = None"
  by (subst findDataLoop.simps) (simp only: if_False)

lemma findDataLoop_hit:
  "i < min (length buffer) 200 \<Longrightarrow> subarray buffer i (i + 4) = Buffer_from ''data''
   \<Longrightarrow> findDataLoop buffer i = Some i"
  by (subst findDataLoop.simps) (simp only: if_True simp_thms)

lemma findDataLoop_miss:
  "i < min (length buffer) 200 \<Longrightarrow> subarray buffer i (i + 4) \<noteq> Buffer_from ''data''
   \<Longrightarrow> findDataLoop buffer i = findDataLoop buffer (i + 1)"
  by (subst findDataLoop.simps) (simp only: if_True if_False)

lemma findDataLoop_None:
  "findDataLoop buf i = None
   \<longleftrightarrow> (\<forall>j. i \<le> j \<and> j < min (length buf) 200
          \<longrightarrow> subarray buf j (j + 4) \<noteq> Buffer_from ''data'')"
proof (induction buf i rule: findDataLoop.induct)
  case (1 buffer i)
  show ?case
  proof (cases "i < min (length buffer) 200")
    case False
    have "\<And>j. i \<le> j \<Longrightarrow> \<not> j < min (length buffer) 200" using False by arith
    with findDataLoop_stop[OF False] show ?thesis by blast
  next
    case True
    show ?thesis
    proof (cases "subarray buffer i (i + 4) = Buffer_from ''data''")
      case t: True
      from findDataLoop_hit[OF True t] True t show ?thesis by auto
    next
      case f: False
      have e: "findDataLoop buffer i = findDataLoop buffer (i + 1)"
        by (rule findDataLoop_miss[OF True f])
      have ih: "findDataLoop buffer (i + 1) = None
                \<longleftrightarrow> (\<forall>j. i + 1 \<le> j \<and> j < min (length buffer) 200
                       \<longrightarrow> subarray buffer j (j + 4) \<noteq> Buffer_from ''data'')"
        using 1[OF True f] .
      have "(\<forall>j. i + 1 \<le> j \<and> j < min (length buffer) 200
                \<longrightarrow> subarray buffer j (j + 4) \<noteq> Buffer_from ''data'')
            \<longleftrightarrow> (\<forall>j. i \<le> j \<and> j < min (length buffer) 200
                \<longrightarrow> subarray buffer j (j + 4) \<noteq> Buffer_from ''data'')"
      proof (intro iffI allI impI)
        fix j
        assume a: "\<forall>j. i + 1 \<le> j \<and> j < min (length buffer) 200
                     \<longrightarrow> subarray buffer j (j + 4) \<noteq> Buffer_from ''data''"
          and b: "i \<le> j \<and> j < min (length buffer) 200"
        show "subarray buffer j (j + 4) \<noteq> Buffer_from ''data''"
        proof (cases "j = i")
          case True
          with f show ?thesis by simp
        next
          case False
          with b have "i + 1 \<le> j \<and> j < min (length buffer) 200" by arith
          with a show ?thesis by blast
        qed
      next
        fix j
        assume a: "\<forall>j. i \<le> j \<and> j < min (length buffer) 200
                     \<longrightarrow> subarray buffer j (j + 4) \<noteq> Buffer_from ''data''"
          and b: "i + 1 \<le> j \<and> j < min (length buffer) 200"
        from b have "i \<le> j \<and> j < min (length buffer) 200" by arith
        with a show "subarray buffer j (j + 4) \<noteq> Buffer_from ''data''" by blast
      qed
      with ih show ?thesis by (simp only: e)
    qed
  qed
qed

lemma stripWavHeader_loop_unchanged:
  assumes "\<not> marker_starts_within buf DATA_MARKER 200"
  shows "stripWavHeader_loop buf = buf"
proof -
  have "length (Buffer_from ''data'') = 4" by (simp add: Buffer_from_literals)
  with assms have "findDataLoop buf 0 = None"
    by (simp add: findDataLoop_None marker_starts_within_def occurs_at_def DATA_MARKER_def)
  then show ?thesis by (simp add: stripWavHeader_loop_def)
qed

subsection \<open>\<open>parseWav\<close> without a \<open>data\<close> marker\<close>

lemma parseWav_no_data:
  assumes "indexOf (subarray buf 0 (min (length buf) 200)) DATA_MARKER = None"
  shows "parseWav buf =
     (case indexOf (subarray buf 0 (min (length buf) 200)) FMT_MARKER of
        None \<Rightarrow> Inr None
      | Some fmtIndex \<Rightarrow> if fmtIndex + 24 \<le> length buf then Inr None else Inl RangeError)"
  using assms
  by (auto simp: parseWav_def Let_def readUInt16LE_def readUInt32LE_def
           split: option.splits sum.splits)

subsection \<open>The example buffers\<close>

lemma wav_bytes:
  "wav_1ch_8000_16 =
     [82, 73, 70, 70, 40, 0, 0, 0, 87, 65, 86, 69,
      102, 109, 116, 32, 16, 0, 0, 0, 1, 0, 1, 0, 0x40, 0x1F, 0, 0, 0x80, 0x3E, 0, 0, 2, 0, 16, 0,
      100, 97, 116, 97, 4, 0, 0, 0, 1, 2, 3, 4]"
  by (simp add: wav_1ch_8000_16_def Buffer_from_literals)




lemma occurs_at_first_byte:
  assumes "m \<noteq> []" "j < length buf" "buf ! j \<noteq> hd m"
  shows "\<not> occurs_at buf m j"
proof
  assume "occurs_at buf m j"
  then have e: "take (length m) (drop j buf) = m" by (simp add: occurs_at_def subarray_def)
  from assms(2) have "drop j buf = buf ! j # drop (Suc j) buf" by (simp add: Cons_nth_drop_Suc)
  with e assms(1) have "hd m = buf ! j" by (cases m) auto
  with assms(3) show False by simp
qed

lemma pcm_spelling_data_facts:
  "toString_ascii pcm_spelling_data 0 4 \<noteq> ''RIFF''"
  "stripWavHeader_lib pcm_spelling_data = [7, 0, 8, 0]"
  "stripWavHeader_loop pcm_spelling_data = [7, 0, 8, 0]"
proof -
  show "toString_ascii pcm_spelling_data 0 4 \<noteq> ''RIFF''"
    by (simp add: pcm_spelling_data_def toString_ascii_def subarray_def char_of_eq_iff)
  show "stripWavHeader_lib pcm_spelling_data = [7, 0, 8, 0]"
    by (simp add: stripWavHeader_lib_def pcm_spelling_data_def subarray_def subarray_from_def
          indexOf_def DATA_MARKER_def Buffer_from_literals)
  have "findDataLoop pcm_spelling_data 0 = Some 0"
    by (rule findDataLoop_hit)
       (simp_all add: pcm_spelling_data_def subarray_def Buffer_from_literals)
  then show "stripWavHeader_loop pcm_spelling_data = [7, 0, 8, 0]"
    by (simp add: stripWavHeader_loop_def subarray_from_def pcm_spelling_data_def)
qed

text \<open>
  Claim C2 does not hold of the \<open>stripWavHeader\<close> of lib.ts, which never looks at the
  magic: raw PCM that does not start with \<open>RIFF\<close> but contains the bytes \<open>d a t a\<close> loses
  its first samples.
\<close>

theorem stripWavHeader_lib_strips_raw_pcm:
  "toString_ascii pcm_spelling_data 0 4 \<noteq> ''RIFF''
   \<and> stripWavHeader_lib pcm_spelling_data = [7, 0, 8, 0]
   \<and> stripWavHeader_lib pcm_spelling_data \<noteq> pcm_spelling_data"
  by (simp add: pcm_spelling_data_facts) (simp add: pcm_spelling_data_def)

text \<open>
  Claim C2, amended. The \<open>stripWavHeader\<close> of index.js returns the buffer unchanged, and
  never fails, whenever the first four bytes do not decode to \<open>RIFF\<close> or bytes 8 to 11
  do not decode to \<open>WAVE\<close> (decoding clears the highest bit of each byte). The
  \<open>stripWavHeader\<close> of lib.ts returns the buffer unchanged exactly when no \<open>data\<close> marker
  lies within the first 200 bytes, whatever the magic.
\<close>

theorem stripWavHeader_passthrough:
  "(toString_ascii buf 0 4 \<noteq> ''RIFF'' \<or> toString_ascii buf 8 12 \<noteq> ''WAVE''
      \<longrightarrow> stripWavHeader buf = Inr buf)
   \<and> (stripWavHeader_lib buf = buf \<longleftrightarrow> \<not> marker_within buf DATA_MARKER 200)"
proof
  show "toString_ascii buf 0 4 \<noteq> ''RIFF'' \<or> toString_ascii buf 8 12 \<noteq> ''WAVE''
        \<longrightarrow> stripWavHeader buf = Inr buf"
    by (simp add: stripWavHeader_def)
  show "stripWavHeader_lib buf = buf \<longleftrightarrow> \<not> marker_within buf DATA_MARKER 200"
    by (simp only: stripWavHeader_lib_unchanged_iff
          indexOf_prefix_None[OF length_DATA_MARKER(2)])
qed

lemma indexOf_at_zeros:
  "indexOf_at (replicate n 0 @ ys) (100 # m :: byte list) i = indexOf_at ys (100 # m) (i + n)"
  by (induction n arbitrary: i) simp_all

lemma indexOf_at_only_zeros:
  "indexOf_at (replicate n 0) (100 # m :: byte list) i = None"
  by (induction n arbitrary: i) simp_all

lemma raw_rifx_facts:
  "length raw_rifx = 48"
  "toString_ascii raw_rifx 0 4 \<noteq> ''RIFF''"
  "stripWavHeader_lib raw_rifx = raw_rifx"
proof -
  show l: "length raw_rifx = 48" by (simp add: raw_rifx_def Buffer_from_literals)
  have "toString_ascii raw_rifx 0 4 = toString_ascii [82, 73, 70, 88] 0 4"
    by (simp add: toString_ascii_def subarray_def raw_rifx_def Buffer_from_literals)
  also have "\<dots> \<noteq> ''RIFF''"
    by (simp add: toString_ascii_def subarray_def char_of_eq_iff)
  finally show "toString_ascii raw_rifx 0 4 \<noteq> ''RIFF''" .
  have "indexOf (subarray raw_rifx 0 (min (length raw_rifx) 200)) DATA_MARKER = None"
    unfolding l
    by (simp add: raw_rifx_def subarray_def indexOf_def DATA_MARKER_def Buffer_from_literals
          indexOf_at_zeros indexOf_at_only_zeros)
  then show "stripWavHeader_lib raw_rifx = raw_rifx"
    by (simp only: stripWavHeader_lib_unchanged_iff)
qed

text \<open>The amended claim at a raw buffer of 48 bytes that starts with \<open>RIFX\<close>.\<close>

theorem stripWavHeader_passthrough_witness:
  "toString_ascii raw_rifx 0 4 \<noteq> ''RIFF''
   \<and> stripWavHeader raw_rifx = Inr raw_rifx
   \<and> \<not> marker_within raw_rifx DATA_MARKER 200
   \<and> stripWavHeader_lib raw_rifx = raw_rifx"
  using stripWavHeader_passthrough[of raw_rifx] raw_rifx_facts(2,3) by blast


text \<open>
  Claim C10 does not hold of \<open>parseWav\<close> on a buffer cut off inside the \<open>fmt \<close> chunk:
  there is no \<open>data\<close> marker, yet the second unguarded read raises instead of the
  function returning \<open>null\<close>.
\<close>

theorem parseWav_raises_on_truncated_header:
  "indexOf wav_truncated DATA_MARKER = None
   \<and> parseWav wav_truncated = Inl RangeError
   \<and> parseWav wav_truncated \<noteq> Inr None"
proof -
  have b: "wav_truncated =
     [82, 73, 70, 70, 40, 0, 0, 0, 87, 65, 86, 69, 102, 109, 116, 32, 16, 0, 0, 0, 1, 0, 1, 0]"
    by (simp add: wav_truncated_def wav_bytes)
  have d: "indexOf wav_truncated DATA_MARKER = None"
    by (simp add: b indexOf_def DATA_MARKER_def Buffer_from_literals)
  have f: "indexOf (subarray wav_truncated 0 (min (length wav_truncated) 200)) FMT_MARKER
           = Some 12"
    by (simp add: b indexOf_def subarray_def FMT_MARKER_def Buffer_from_literals)
  have "parseWav wav_truncated = Inl RangeError"
    by (simp add: parseWav_def f) (simp add: b readUInt16LE_def readUInt32LE_def)
  with d show ?thesis by simp
qed

text \<open>
  Claim C10, amended. If no \<open>data\<close> marker lies within the first 200 bytes, the
  \<open>stripWavHeader\<close> of lib.ts (and its deprecated twin) returns the buffer unchanged, and
  \<open>parseWav\<close> returns \<open>null\<close> when the \<open>fmt \<close> marker is absent from these bytes or is
  followed by at least 24 bytes (it raises a range error otherwise), whatever follows
  byte 200. The loop variant returns the buffer unchanged if no \<open>data\<close> marker starts
  within the first 200 bytes.
\<close>

theorem marker_search_limited_to_200:
  "(\<not> marker_within buf DATA_MARKER 200
      \<longrightarrow> stripWavHeader_lib buf = buf
          \<and> parseWav buf =
              (case indexOf (subarray buf 0 (min (length buf) 200)) FMT_MARKER of
                 None \<Rightarrow> Inr None
               | Some fmtIndex \<Rightarrow>
                   if fmtIndex + 24 \<le> length buf then Inr None else Inl RangeError))
   \<and> (\<not> marker_starts_within buf DATA_MARKER 200 \<longrightarrow> stripWavHeader_loop buf = buf)"
proof (intro conjI impI)
  assume "\<not> marker_within buf DATA_MARKER 200"
  then have n: "indexOf (subarray buf 0 (min (length buf) 200)) DATA_MARKER = None"
    using indexOf_prefix_None[OF length_DATA_MARKER(2), of buf 200] by blast
  then show "stripWavHeader_lib buf = buf" by (simp only: stripWavHeader_lib_unchanged_iff)
  from n show "parseWav buf =
              (case indexOf (subarray buf 0 (min (length buf) 200)) FMT_MARKER of
                 None \<Rightarrow> Inr None
               | Some fmtIndex \<Rightarrow>
                   if fmtIndex + 24 \<le> length buf then Inr None else Inl RangeError)"
    by (rule parseWav_no_data)
next
  assume "\<not> marker_starts_within buf DATA_MARKER 200"
  then show "stripWavHeader_loop buf = buf" by (rule stripWavHeader_loop_unchanged)
qed

lemma wav_late_data_facts:
  "length wav_late_data = 212"
  "occurs_at wav_late_data DATA_MARKER 200"
  "indexOf (subarray wav_late_data 0 (min (length wav_late_data) 200)) FMT_MARKER = Some 12"
  "\<not> marker_starts_within wav_late_data DATA_MARKER 200"
  "\<not> marker_within wav_late_data DATA_MARKER 200"
proof -
  show l: "length wav_late_data = 212"
    by (simp add: wav_late_data_def wav_bytes Buffer_from_literals)
  show "occurs_at wav_late_data DATA_MARKER 200"
    by (simp add: occurs_at_def subarray_def wav_late_data_def wav_bytes DATA_MARKER_def
          Buffer_from_literals)
  show "indexOf (subarray wav_late_data 0 (min (length wav_late_data) 200)) FMT_MARKER = Some 12"
    unfolding l
    by (simp add: wav_late_data_def wav_bytes subarray_def indexOf_def FMT_MARKER_def
          Buffer_from_literals)
  have t: "take 200 wav_late_data =
      [82, 73, 70, 70, 40, 0, 0, 0, 87, 65, 86, 69,
       102, 109, 116, 32, 16, 0, 0, 0, 1, 0, 1, 0, 0x40, 0x1F, 0, 0, 0x80, 0x3E, 0, 0, 2, 0, 16, 0,
       74, 85, 78, 75, 156, 0, 0, 0] @ replicate 156 0"
    by (simp add: wav_late_data_def wav_bytes Buffer_from_literals)
  have a: "\<forall>b \<in> set (take 200 wav_late_data). b \<noteq> 100" unfolding t by simp
  have nth: "wav_late_data ! j \<noteq> 100" if "j < 200" for j
  proof -
    from that l have "j < length (take 200 wav_late_data)" by simp
    then have "take 200 wav_late_data ! j \<in> set (take 200 wav_late_data)" by (rule nth_mem)
    with a have "take 200 wav_late_data ! j \<noteq> 100" by blast
    with that show ?thesis by simp
  qed
  have no: "\<not> occurs_at wav_late_data DATA_MARKER j" if "j < min (length wav_late_data) 200" for j
  proof -
    from that have j: "j < 200" "j < length wav_late_data" by simp_all
    show ?thesis
      by (rule occurs_at_first_byte[OF length_DATA_MARKER(2) j(2)])
         (simp add: nth[OF j(1)] DATA_MARKER_def Buffer_from_literals)
  qed
  then show "\<not> marker_starts_within wav_late_data DATA_MARKER 200"
    unfolding marker_starts_within_def by auto
  from no show "\<not> marker_within wav_late_data DATA_MARKER 200"
    unfolding marker_within_def by auto
qed

text \<open>The amended claim at a container whose \<open>data\<close> chunk starts at byte 200.\<close>

theorem marker_search_limited_to_200_witness:
  "occurs_at wav_late_data DATA_MARKER 200
   \<and> \<not> marker_within wav_late_data DATA_MARKER 200
   \<and> \<not> marker_starts_within wav_late_data DATA_MARKER 200
   \<and> stripWavHeader_lib wav_late_data = wav_late_data
   \<and> parseWav wav_late_data = Inr None
   \<and> stripWavHeader_loop wav_late_data = wav_late_data"
proof -
  note h1 = wav_late_data_facts(5) and h2 = wav_late_data_facts(4)
  from marker_search_limited_to_200[of wav_late_data] h1 h2
  have "stripWavHeader_lib wav_late_data = wav_late_data"
    "parseWav wav_late_data =
       (case indexOf (subarray wav_late_data 0 (min (length wav_late_data) 200)) FMT_MARKER of
          None \<Rightarrow> Inr None
        | Some fmtIndex \<Rightarrow>
            if fmtIndex + 24 \<le> length wav_late_data then Inr None else Inl RangeError)"
    "stripWavHeader_loop wav_late_data = wav_late_data"
    by blast+
  moreover have "(case indexOf (subarray wav_late_data 0 (min (length wav_late_data) 200))
                         FMT_MARKER of
          None \<Rightarrow> Inr None
        | Some fmtIndex \<Rightarrow>
            if fmtIndex + 24 \<le> length wav_late_data then Inr None else Inl RangeError)
        = (Inr None :: error + WavInfo option)"
    by (simp only: wav_late_data_facts(3)) (simp add: wav_late_data_facts(1))
  ultimately show ?thesis
    using h1 h2 wav_late_data_facts(2) by (simp only: simp_thms)
qed

text \<open>
  The \<open>stripWavHeader\<close> of index.js on the example container, and on the same bytes
  with the highest bit of the first byte set: the ascii decoding accepts them as the
  magic.
\<close>

lemma stripWavHeader_example:
  "stripWavHeader wav_1ch_8000_16 = Inr [0x01, 0x02, 0x03, 0x04]"
proof -
  have "walkChunks wav_1ch_8000_16 36 = Inr [1, 2, 3, 4]"
    by (subst walkChunks.simps)
       (simp add: wav_bytes readUInt32LE_def toString_ascii_def subarray_def char_of_eq_iff)
  then have "walkChunks wav_1ch_8000_16 12 = Inr [1, 2, 3, 4]"
    by (subst walkChunks.simps)
       (simp add: wav_bytes readUInt32LE_def toString_ascii_def subarray_def char_of_eq_iff)
  then show ?thesis
    by (simp add: stripWavHeader_def)
       (simp add: wav_bytes toString_ascii_def subarray_def char_of_eq_iff)
qed

lemma stripWavHeader_high_bit_magic:
  "subarray wav_high_bit 0 4 \<noteq> Buffer_from ''RIFF''
   \<and> stripWavHeader wav_high_bit = Inr [0x01, 0x02, 0x03, 0x04]"
proof -
  have b: "wav_high_bit =
     [0xD2, 73, 70, 70, 40, 0, 0, 0, 87, 65, 86, 69,
      102, 109, 116, 32, 16, 0, 0, 0, 1, 0, 1, 0, 0x40, 0x1F, 0, 0, 0x80, 0x3E, 0, 0, 2, 0, 16, 0,
      100, 97, 116, 97, 4, 0, 0, 0, 1, 2, 3, 4]"
    by (simp add: wav_high_bit_def wav_bytes)
  have "walkChunks wav_high_bit 36 = Inr [1, 2, 3, 4]"
    by (subst walkChunks.simps)
       (simp add: b readUInt32LE_def toString_ascii_def subarray_def char_of_eq_iff)
  then have "walkChunks wav_high_bit 12 = Inr [1, 2, 3, 4]"
    by (subst walkChunks.simps)
       (simp add: b readUInt32LE_def toString_ascii_def subarray_def char_of_eq_iff)
  then have "stripWavHeader wav_high_bit = Inr [1, 2, 3, 4]"
    by (simp add: stripWavHeader_def)
       (simp add: b toString_ascii_def subarray_def char_of_eq_iff)
  moreover have "subarray wav_high_bit 0 4 \<noteq> Buffer_from ''RIFF''"
    by (simp add: b subarray_def Buffer_from_literals)
  ultimately show ?thesis by simp
qed

section \<open>Properties of the chunker\<close>

lemma div_add_chunk: "0 < (C::nat) \<Longrightarrow> (x + C) div C = Suc (x div C)"
  by (metis div_add_self2 Suc_eq_plus1 less_numeral_extra(3))

lemma ceil_div_bounds:
  fixes C L :: nat
  assumes C: "0 < C" and L: "0 < L"
  shows "0 < (L + C - 1) div C"
    and "L \<le> (L + C - 1) div C * C"
    and "((L + C - 1) div C - 1) * C < L"
proof -
  define p where "p = (L + C - 1) div C * C"
  define r where "r = (L + C - 1) mod C"
  have e: "p + r = L + C - 1"
    unfolding p_def r_def by (rule div_mult_mod_eq)
  have r: "r < C" unfolding r_def using C by simp
  from e r C L have 1: "L \<le> p" by linarith
  from 1 show "L \<le> (L + C - 1) div C * C" by (simp only: p_def)
  from 1 L have "0 < p" by linarith
  then show q: "0 < (L + C - 1) div C" unfolding p_def by (cases "(L + C - 1) div C") auto
  then have 2: "C \<le> p" unfolding p_def by (cases "(L + C - 1) div C") auto
  from e r C L 2 have 3: "p - C < L" by linarith
  have "((L + C - 1) div C - 1) * C = p - C" unfolding p_def by (simp add: diff_mult_distrib)
  with 3 show "((L + C - 1) div C - 1) * C < L" by simp
qed

lemma concat_chunks:
  "concat (map (\<lambda>i. take C (drop (i * C) xs)) [0 ..< n]) = take (n * C) xs"
proof (induction n)
  case 0
  then show ?case by simp
next
  case (Suc n)
  have "take (n * C) xs @ take C (drop (n * C) xs) = take (n * C + C) xs"
    by (simp add: take_add)
  with Suc show ?case by (simp add: add.commute)
qed

lemma chunkLoop_closed:
  assumes "0 < C"
  shows "chunkLoop C buf offset out =
     Some (out @ map (\<lambda>i. subarray buf (offset + i * C) (offset + i * C + C))
                    [0 ..< (length buf - offset + C - 1) div C])"
proof (induction "length buf - offset" arbitrary: offset out rule: less_induct)
  case less
  show ?case
  proof (cases "offset < length buf")
    case False
    then have "(length buf - offset + C - 1) div C = 0" using assms by simp
    with False show ?thesis by (subst chunkLoop.simps) simp
  next
    case True
    let ?n = "(length buf - (offset + C) + C - 1) div C"
    have m: "length buf - (offset + C) < length buf - offset" using True assms by arith
    have n: "(length buf - offset + C - 1) div C = Suc ?n"
    proof (cases "offset + C \<le> length buf")
      case True
      then have e: "length buf - offset + C - 1 = (length buf - (offset + C) + C - 1) + C"
        using assms by arith
      show ?thesis by (simp only: e div_add_chunk[OF assms])
    next
      case False
      then have a: "length buf - (offset + C) + C - 1 = C - 1" by arith
      define d where "d = length buf - offset - 1"
      have d: "length buf - offset + C - 1 = d + C" "d < C"
        using False True unfolding d_def by arith+
      have "(d + C) div C = Suc (d div C)" by (rule div_add_chunk[OF assms])
      with d(2) have "(d + C) div C = 1" by simp
      then have "(length buf - offset + C - 1) div C = 1" by (simp only: d(1))
      moreover have "?n = 0" unfolding a using assms by simp
      ultimately show ?thesis by simp
    qed
    have "chunkLoop C buf offset out
          = chunkLoop C buf (offset + C) (out @ [subarray buf offset (offset + C)])"
      using True by (subst chunkLoop.simps) simp
    also have "\<dots> = Some ((out @ [subarray buf offset (offset + C)])
                  @ map (\<lambda>i. subarray buf (offset + C + i * C) (offset + C + i * C + C)) [0 ..< ?n])"
      by (rule less[OF m])
    also have "\<dots> = Some (out @ map (\<lambda>i. subarray buf (offset + i * C) (offset + i * C + C)) [0 ..< Suc ?n])"
      by (simp add: upt_conv_Cons map_Suc_upt[symmetric] ac_simps del: upt_Suc)
    finally show ?thesis unfolding n .
  qed
qed

lemma sendAudioInChunks_closed:
  assumes "0 < C" "buf \<noteq> []"
  shows "sendAudioInChunks C (Some OPEN) buf out = Some (out @ frames_of C buf)"
proof (cases "length buf \<le> C")
  case True
  from assms(2) have L: "0 < length buf" by simp
  define d where "d = length buf - 1"
  have d: "length buf + C - 1 = d + C" "d < C" using True L unfolding d_def by arith+
  have "(d + C) div C = Suc (d div C)" by (rule div_add_chunk[OF assms(1)])
  with d(2) have "(d + C) div C = 1" by simp
  then have n: "(length buf + C - 1) div C = 1" by (simp only: d(1))
  have "frames_of C buf = [buf]"
    unfolding frames_of_def n using True by (simp add: subarray_def)
  with True show ?thesis by (simp add: sendAudioInChunks_def)
next
  case False
  then have "sendAudioInChunks C (Some OPEN) buf out = chunkLoop C buf 0 out"
    by (simp add: sendAudioInChunks_def)
  also have "\<dots> = Some (out @ frames_of C buf)"
    unfolding frames_of_def using chunkLoop_closed[OF assms(1), of buf 0 out] by simp
  finally show ?thesis .
qed

lemma frames_of_props:
  assumes C: "0 < C" and ne: "buf \<noteq> []"
  shows "concat (frames_of C buf) = buf"
    and "length (frames_of C buf) = (length buf + C - 1) div C"
    and "(length (frames_of C buf) - 1) * C < length buf"
    and "length buf \<le> length (frames_of C buf) * C"
    and "\<And>i. i < length (frames_of C buf) \<Longrightarrow>
            frames_of C buf ! i = subarray buf (i * C) (i * C + C)"
    and "\<And>i. Suc i < length (frames_of C buf) \<Longrightarrow> length (frames_of C buf ! i) = C"
    and "\<And>f. f \<in> set (frames_of C buf) \<Longrightarrow> f \<noteq> [] \<and> length f \<le> C"
proof -
  let ?n = "(length buf + C - 1) div C"
  from ne have L: "0 < length buf" by simp
  note b = ceil_div_bounds[OF C L]
  show len: "length (frames_of C buf) = ?n" by (simp add: frames_of_def)
  have "concat (frames_of C buf) = take (?n * C) buf"
    using concat_chunks[of C buf ?n] by (simp add: frames_of_def subarray_def)
  with b(2) show "concat (frames_of C buf) = buf" by simp
  from b(3) show "(length (frames_of C buf) - 1) * C < length buf" by (simp only: len)
  from b(2) show "length buf \<le> length (frames_of C buf) * C" by (simp only: len)
  show nth: "frames_of C buf ! i = subarray buf (i * C) (i * C + C)"
    if "i < length (frames_of C buf)" for i
    using that by (simp add: frames_of_def)
  have start: "i * C < length buf" if "i < ?n" for i
  proof -
    from that have "i \<le> ?n - 1" by arith
    then have "i * C \<le> (?n - 1) * C" by (rule mult_le_mono1)
    with b(3) show ?thesis by linarith
  qed
  show "length (frames_of C buf ! i) = C" if "Suc i < length (frames_of C buf)" for i
  proof -
    from that len have i: "Suc i < ?n" by simp
    from start[OF i] have "i * C + C < length buf" by simp
    with that show ?thesis by (simp add: nth subarray_def)
  qed
  show "f \<noteq> [] \<and> length f \<le> C" if "f \<in> set (frames_of C buf)" for f
  proof -
    from that obtain i where i: "i < ?n" and f: "f = subarray buf (i * C) (i * C + C)"
      by (auto simp: frames_of_def)
    from start[OF i] C show ?thesis by (simp add: f subarray_def)
  qed
qed


text \<open>
  Claim C4 does not hold of the empty buffer: its length is at most the chunk size, so
  it is sent whole, as one empty frame, where the claim has no frame at all.
\<close>

theorem sendAudioInChunks_empty_buffer:
  "sendAudioInChunks CHUNK_SIZE (Some OPEN) [] [] = Some [[]]
   \<and> length [[] :: buffer] \<noteq> (length ([] :: buffer) + CHUNK_SIZE - 1) div CHUNK_SIZE"
  by (simp add: sendAudioInChunks_def CHUNK_SIZE_def)

text \<open>
  Claim C4, amended to non-empty buffers. For every non-empty buffer of length \<open>L\<close> and
  every chunk size \<open>C > 0\<close>, the chunker on an open socket returns, having handed over
  frames whose concatenation is the buffer; their number is \<open>L\<close> divided by \<open>C\<close>, rounded
  up; frame \<open>i\<close> is the slice at offset \<open>i * C\<close>, so the frames come in strict offset
  order; a buffer of at most \<open>C\<close> bytes is one frame; every frame but the last has
  exactly \<open>C\<close> bytes, and no frame is empty or longer than \<open>C\<close>.
\<close>

theorem sendAudioInChunks_frames:
  assumes "0 < C" and "buf \<noteq> []"
  shows "\<exists>frames. sendAudioInChunks C (Some OPEN) buf out = Some (out @ frames)
     \<and> concat frames = buf
     \<and> length frames = (length buf + C - 1) div C
     \<and> (length frames - 1) * C < length buf \<and> length buf \<le> length frames * C
     \<and> frames = map (\<lambda>i. subarray buf (i * C) (i * C + C)) [0 ..< length frames]
     \<and> (length buf \<le> C \<longrightarrow> frames = [buf])
     \<and> (\<forall>i. Suc i < length frames \<longrightarrow> length (frames ! i) = C)
     \<and> (\<forall>f \<in> set frames. f \<noteq> [] \<and> length f \<le> C)"
proof (intro exI[of _ "frames_of C buf"] conjI)
  note p = frames_of_props[OF assms]
  show "sendAudioInChunks C (Some OPEN) buf out = Some (out @ frames_of C buf)"
    by (rule sendAudioInChunks_closed[OF assms])
  show "concat (frames_of C buf) = buf" by (rule p(1))
  show "length (frames_of C buf) = (length buf + C - 1) div C" by (rule p(2))
  show "(length (frames_of C buf) - 1) * C < length buf" by (rule p(3))
  show "length buf \<le> length (frames_of C buf) * C" by (rule p(4))
  show "frames_of C buf
        = map (\<lambda>i. subarray buf (i * C) (i * C + C)) [0 ..< length (frames_of C buf)]"
    by (simp add: frames_of_def)
  show "length buf \<le> C \<longrightarrow> frames_of C buf = [buf]"
  proof
    assume le: "length buf \<le> C"
    then have "sendAudioInChunks C (Some OPEN) buf [] = Some [buf]"
      by (simp add: sendAudioInChunks_def)
    with sendAudioInChunks_closed[OF assms, of "[]"] show "frames_of C buf = [buf]" by simp
  qed
  show "\<forall>i. Suc i < length (frames_of C buf) \<longrightarrow> length (frames_of C buf ! i) = C"
    using p(6) by blast
  show "\<forall>f \<in> set (frames_of C buf). f \<noteq> [] \<and> length f \<le> C"
    using p(7) by blast
qed

text \<open>The amended claim at ten bytes and a chunk size of four: three frames.\<close>

theorem sendAudioInChunks_frames_witness:
  "(0 :: nat) < 4
   \<and> [1, 2, 3, 4, 5, 6, 7, 8, 9, 10 :: byte] \<noteq> []
   \<and> sendAudioInChunks 4 (Some OPEN) [1, 2, 3, 4, 5, 6, 7, 8, 9, 10] []
       = Some [[1, 2, 3, 4], [5, 6, 7, 8], [9, 10]]"
proof -
  let ?b = "[1, 2, 3, 4, 5, 6, 7, 8, 9, 10 :: byte]"
  let ?g = "\<lambda>i. subarray ?b (i * 4) (i * 4 + 4)"
  have h: "(0 :: nat) < 4" "?b \<noteq> []" by simp_all
  obtain frames where f1: "sendAudioInChunks 4 (Some OPEN) ?b [] = Some ([] @ frames)"
    and f2: "length frames = (length ?b + 4 - 1) div 4"
    and f3: "frames = map ?g [0 ..< length frames]"
    using sendAudioInChunks_frames[OF h, of "[]"]
    by (elim exE conjE) (rule that; assumption)
  from f2 have l: "length frames = 3" by simp
  have m: "map ?g [0 ..< 3] = [[1, 2, 3, 4], [5, 6, 7, 8], [9, 10]]"
    by (simp add: upt_conv_Cons subarray_def)
  from f3[unfolded l] m have "frames = [[1, 2, 3, 4], [5, 6, 7, 8], [9, 10]]"
    by (rule trans)
  with f1 show ?thesis by simp
qed

text \<open>With the chunk size of index.ts the chunker always returns.\<close>

lemma sendAudioInChunks_returns:
  "\<exists>frames. sendAudioInChunks CHUNK_SIZE h buf out = Some frames"
proof (cases "h = Some OPEN \<and> buf \<noteq> []")
  case True
  then show ?thesis
    using sendAudioInChunks_closed[of CHUNK_SIZE buf out] by (simp add: CHUNK_SIZE_def)
next
  case False
  then show ?thesis by (auto simp: sendAudioInChunks_def)
qed


section \<open>Properties of the session of index.js and of index.ts\<close>

text \<open>The example sessions are reached from a new session.\<close>

lemma reach_connecting:
  "run example_env new_session
     [ClientMessage (Parsed (Audio (Some ''AAAA''))), ClientMessage (Parsed (Init (Some ''u1'')))]
   = Inr connecting_session"
  by (simp add: step_def new_session_def new_socket_def ws_is_open_def
        initializeHumeAIConnection_def example_env_def connecting_session_def)

lemma reach_ready:
  "run example_env connecting_session [UpstreamOpen 0] = Inr ready_session"
  by (simp add: step_def connecting_session_def new_socket_def set_upstream_state_def
        onUpstreamOpen_def ws_send_current_def ws_send_def example_env_def ready_session_def)

subsection \<open>Sending on an open socket\<close>

lemma ws_send_open:
  "readyState sock = OPEN \<Longrightarrow> ws_send sock m = Inr (sock\<lparr>sent := sent sock @ [m]\<rparr>)"
  by (simp add: ws_send_def)

lemma ws_send_current_open:
  assumes "ws s = Some k" "readyState (upstreams s ! k) = OPEN"
  shows "ws_send_current s m =
     Inr (s\<lparr>upstreams := (upstreams s)[k := (upstreams s ! k)
                               \<lparr>sent := sent (upstreams s ! k) @ [m]\<rparr>]\<rparr>)"
  using assms by (simp add: ws_send_current_def ws_send_open)

lemma sendBuffered_open:
  assumes "ws s = Some k" "k < length (upstreams s)" "readyState (upstreams s ! k) = OPEN"
  shows "sendBuffered s chunks =
     Inr (s\<lparr>upstreams := (upstreams s)[k := (upstreams s ! k)
              \<lparr>sent := sent (upstreams s ! k)
                        @ map (\<lambda>chunk. AudioInput chunk (sessionUuid s)) chunks\<rparr>]\<rparr>)"
  using assms
proof (induction chunks arbitrary: s)
  case Nil
  then show ?case by simp
next
  case (Cons chunk chunks)
  let ?s' = "s\<lparr>upstreams := (upstreams s)[k := (upstreams s ! k)
               \<lparr>sent := sent (upstreams s ! k) @ [AudioInput chunk (sessionUuid s)]\<rparr>]\<rparr>"
  have 1: "ws_send_current s (AudioInput chunk (sessionUuid s)) = Inr ?s'"
    using Cons.prems by (simp add: ws_send_current_open)
  have 2: "ws ?s' = Some k" "k < length (upstreams ?s')" "readyState (upstreams ?s' ! k) = OPEN"
    using Cons.prems by simp_all
  show ?case
    using Cons.prems by (simp add: 1 Cons.IH[OF 2])
qed

lemma onUpstreamOpen_flush:
  assumes "ws s = Some k" "k < length (upstreams s)" "readyState (upstreams s ! k) = OPEN"
  shows "onUpstreamOpen env s =
     Inr (s\<lparr>audioBuffer := [],
            upstreams := (upstreams s)[k := (upstreams s ! k)
              \<lparr>sent := sent (upstreams s ! k)
                        @ map (\<lambda>chunk. AudioInput chunk (sessionUuid s)) (audioBuffer s)
                        @ [AssistantInput (sessionUuid s) (HUMEAI_WELCOME_MESSAGE env)]\<rparr>]\<rparr>)"
proof (cases "audioBuffer s = []")
  case True
  with assms show ?thesis
    by (simp add: onUpstreamOpen_def ws_send_current_open)
next
  case False
  with assms show ?thesis
    by (simp add: onUpstreamOpen_def sendBuffered_open ws_send_current_open)
qed

subsection \<open>Queueing\<close>

lemma run_append:
  "run env s (es @ fs) = (case run env s es of Inl x \<Rightarrow> Inl x | Inr s' \<Rightarrow> run env s' fs)"
  by (induction es arbitrary: s) (auto split: sum.splits)

lemma audio_queued:
  assumes "\<not> ws_is_open s" "readyState (clientWs s) = OPEN"
  shows "run env s (audio_messages msgs)
         = Inr (s\<lparr>audioBuffer := audioBuffer s @ frames_in msgs\<rparr>)"
  using assms
proof (induction msgs arbitrary: s rule: frames_in.induct)
  case 1
  then show ?case by (simp add: audio_messages_def)
next
  case (2 msgs)
  then show ?case by (simp add: audio_messages_def step_def)
next
  case (3 a msgs)
  show ?case
  proof (cases "a = []")
    case True
    with 3 show ?thesis by (simp add: audio_messages_def step_def)
  next
    case False
    let ?s' = "s\<lparr>audioBuffer := audioBuffer s @ [a]\<rparr>"
    have p: "\<not> ws_is_open ?s'" "readyState (clientWs ?s') = OPEN"
      using "3.prems" by (simp_all add: ws_is_open_def split: option.splits)
    from "3.IH"(2)[OF False p] False "3.prems" show ?thesis
      by (simp add: audio_messages_def step_def)
  qed
qed


text \<open>
  Claim C1. While the upstream socket is not open, the frames of the audio messages a
  session receives are appended to the pending audio queue, in their order. When the
  upstream socket then opens, the queued frames are sent upstream in exactly their
  arrival order, each once, before the priming message, and the queue is empty.
\<close>

theorem pending_audio_flushed_in_order:
  "(\<not> ws_is_open s \<and> readyState (clientWs s) = OPEN
      \<longrightarrow> run env s (audio_messages msgs)
          = Inr (s\<lparr>audioBuffer := audioBuffer s @ frames_in msgs\<rparr>))
   \<and> (ws s = Some k \<and> k < length (upstreams s)
        \<and> readyState (upstreams s ! k) = CONNECTING \<and> readyState (clientWs s) = OPEN
      \<longrightarrow> run env s (audio_messages msgs @ [UpstreamOpen k])
          = Inr (s\<lparr>audioBuffer := [],
                   upstreams := (upstreams s)[k := (upstreams s ! k)
                     \<lparr>readyState := OPEN,
                      sent := sent (upstreams s ! k)
                        @ map (\<lambda>chunk. AudioInput chunk (sessionUuid s))
                              (audioBuffer s @ frames_in msgs)
                        @ [AssistantInput (sessionUuid s) (HUMEAI_WELCOME_MESSAGE env)]\<rparr>]\<rparr>))"
proof (intro conjI impI)
  assume "\<not> ws_is_open s \<and> readyState (clientWs s) = OPEN"
  then show "run env s (audio_messages msgs)
             = Inr (s\<lparr>audioBuffer := audioBuffer s @ frames_in msgs\<rparr>)"
    by (simp add: audio_queued)
next
  assume a: "ws s = Some k \<and> k < length (upstreams s)
        \<and> readyState (upstreams s ! k) = CONNECTING \<and> readyState (clientWs s) = OPEN"
  then have n: "\<not> ws_is_open s" by (simp add: ws_is_open_def)
  let ?q = "s\<lparr>audioBuffer := audioBuffer s @ frames_in msgs\<rparr>"
  let ?o = "set_upstream_state k OPEN ?q"
  have q: "run env s (audio_messages msgs) = Inr ?q"
    using n a by (simp add: audio_queued)
  have e: "enabled ?q (UpstreamOpen k)" using a by simp
  have o: "ws ?o = Some k" "k < length (upstreams ?o)" "readyState (upstreams ?o ! k) = OPEN"
    using a by (simp_all add: set_upstream_state_def)
  have "run env s (audio_messages msgs @ [UpstreamOpen k]) = onUpstreamOpen env ?o"
    using e by (simp add: run_append q step_def split: sum.splits)
  also have "\<dots> = Inr (?o\<lparr>audioBuffer := [],
            upstreams := (upstreams ?o)[k := (upstreams ?o ! k)
              \<lparr>sent := sent (upstreams ?o ! k)
                        @ map (\<lambda>chunk. AudioInput chunk (sessionUuid ?o)) (audioBuffer ?o)
                        @ [AssistantInput (sessionUuid ?o) (HUMEAI_WELCOME_MESSAGE env)]\<rparr>]\<rparr>)"
    by (rule onUpstreamOpen_flush[OF o])
  also have "\<dots> = Inr (s\<lparr>audioBuffer := [],
                   upstreams := (upstreams s)[k := (upstreams s ! k)
                     \<lparr>readyState := OPEN,
                      sent := sent (upstreams s ! k)
                        @ map (\<lambda>chunk. AudioInput chunk (sessionUuid s))
                              (audioBuffer s @ frames_in msgs)
                        @ [AssistantInput (sessionUuid s) (HUMEAI_WELCOME_MESSAGE env)]\<rparr>]\<rparr>)"
    using a by (simp add: set_upstream_state_def)
  finally show "run env s (audio_messages msgs @ [UpstreamOpen k])
          = Inr (s\<lparr>audioBuffer := [],
                   upstreams := (upstreams s)[k := (upstreams s ! k)
                     \<lparr>readyState := OPEN,
                      sent := sent (upstreams s ! k)
                        @ map (\<lambda>chunk. AudioInput chunk (sessionUuid s))
                              (audioBuffer s @ frames_in msgs)
                        @ [AssistantInput (sessionUuid s) (HUMEAI_WELCOME_MESSAGE env)]\<rparr>]\<rparr>)" .
qed

text \<open>
  Claim C1 at the session that has queued \<open>AAAA\<close> and dialled: it receives \<open>BBBB\<close>, an
  empty payload, a message without payload and \<open>CCCC\<close>, and then the socket opens.
\<close>

theorem pending_audio_flushed_in_order_witness:
  "\<not> ws_is_open connecting_session
   \<and> ws connecting_session = Some 0
   \<and> 0 < length (upstreams connecting_session)
   \<and> readyState (upstreams connecting_session ! 0) = CONNECTING
   \<and> readyState (clientWs connecting_session) = OPEN
   \<and> run example_env connecting_session
         (audio_messages [Some ''BBBB'', Some [], None, Some ''CCCC''])
       = Inr (connecting_session\<lparr>audioBuffer := [''AAAA'', ''BBBB'', ''CCCC'']\<rparr>)
   \<and> run example_env connecting_session
         (audio_messages [Some ''BBBB'', Some [], None, Some ''CCCC''] @ [UpstreamOpen 0])
       = Inr (connecting_session
           \<lparr>audioBuffer := [],
            upstreams :=
              [\<lparr>readyState = OPEN,
                sent = [AudioInput ''AAAA'' (Some ''u1''), AudioInput ''BBBB'' (Some ''u1''),
                        AudioInput ''CCCC'' (Some ''u1''),
                        AssistantInput (Some ''u1'') ''Hello, how can I help you today?''],
                discarded = []\<rparr>]\<rparr>)"
proof -
  have h: "\<not> ws_is_open connecting_session" "ws connecting_session = Some 0"
    "0 < length (upstreams connecting_session)"
    "readyState (upstreams connecting_session ! 0) = CONNECTING"
    "readyState (clientWs connecting_session) = OPEN"
    by (simp_all add: connecting_session_def ws_is_open_def new_socket_def)
  from pending_audio_flushed_in_order
         [where s = connecting_session and k = 0 and env = example_env
            and msgs = "[Some ''BBBB'', Some [], None, Some ''CCCC'']"] h
  have "run example_env connecting_session
          (audio_messages [Some ''BBBB'', Some [], None, Some ''CCCC''])
        = Inr (connecting_session\<lparr>audioBuffer := audioBuffer connecting_session
                 @ frames_in [Some ''BBBB'', Some [], None, Some ''CCCC'']\<rparr>)"
    and "run example_env connecting_session
          (audio_messages [Some ''BBBB'', Some [], None, Some ''CCCC''] @ [UpstreamOpen 0])
        = Inr (connecting_session\<lparr>audioBuffer := [],
                   upstreams := (upstreams connecting_session)[0 := (upstreams connecting_session ! 0)
                     \<lparr>readyState := OPEN,
                      sent := sent (upstreams connecting_session ! 0)
                        @ map (\<lambda>chunk. AudioInput chunk (sessionUuid connecting_session))
                              (audioBuffer connecting_session
                                 @ frames_in [Some ''BBBB'', Some [], None, Some ''CCCC''])
                        @ [AssistantInput (sessionUuid connecting_session)
                             (HUMEAI_WELCOME_MESSAGE example_env)]\<rparr>]\<rparr>)"
    by blast+
  then show ?thesis
    using h by (simp add: connecting_session_def new_socket_def example_env_def)
qed

text \<open>
  From a new session: frames received before \<open>init\<close> and between \<open>init\<close> and the
  opening of the upstream socket are sent in the order of their arrival.
\<close>

lemma pending_audio_from_new_session:
  assumes "\<not> WebSocket_throws env" "\<not> loadTools_throws env"
  shows "run env new_session
           (audio_messages before @ [ClientMessage (Parsed (Init uuid))]
            @ audio_messages after @ [UpstreamOpen 0])
         = Inr (new_session
             \<lparr>sessionUuid := uuid, ws := Some 0,
              upstreams :=
                [\<lparr>readyState = OPEN,
                  sent = map (\<lambda>chunk. AudioInput chunk uuid)
                           (frames_in before @ frames_in after)
                         @ [AssistantInput uuid (HUMEAI_WELCOME_MESSAGE env)],
                  discarded = []\<rparr>]\<rparr>)"
proof -
  let ?q = "new_session\<lparr>audioBuffer := frames_in before\<rparr>"
  let ?c = "?q\<lparr>sessionUuid := uuid, upstreams := [new_socket CONNECTING], ws := Some 0\<rparr>"
  have n: "\<not> ws_is_open new_session" "readyState (clientWs new_session) = OPEN"
    by (simp_all add: ws_is_open_def new_session_def new_socket_def)
  have 1: "run env new_session (audio_messages before) = Inr ?q"
    using audio_queued[OF n, of env before] by (simp add: new_session_def)
  have 2: "run env ?q [ClientMessage (Parsed (Init uuid))] = Inr ?c"
    using assms
    by (simp add: step_def initializeHumeAIConnection_def Let_def new_session_def new_socket_def)
  have c: "ws ?c = Some 0" "0 < length (upstreams ?c)"
    "readyState (upstreams ?c ! 0) = CONNECTING" "readyState (clientWs ?c) = OPEN"
    by (simp_all add: new_session_def new_socket_def)
  then have nc: "\<not> ws_is_open ?c" by (simp add: ws_is_open_def)
  let ?d = "?c\<lparr>audioBuffer := audioBuffer ?c @ frames_in after\<rparr>"
  have 3: "run env ?c (audio_messages after) = Inr ?d"
    by (rule audio_queued[OF nc c(4)])
  let ?o = "set_upstream_state 0 OPEN ?d"
  have o: "ws ?o = Some 0" "0 < length (upstreams ?o)" "readyState (upstreams ?o ! 0) = OPEN"
    by (simp_all add: set_upstream_state_def new_session_def new_socket_def)
  have 4: "run env ?d [UpstreamOpen 0] = onUpstreamOpen env ?o"
    by (simp add: step_def new_session_def new_socket_def split: sum.splits)
  have "run env new_session
           (audio_messages before @ [ClientMessage (Parsed (Init uuid))]
            @ audio_messages after @ [UpstreamOpen 0])
        = onUpstreamOpen env ?o"
    by (simp only: run_append 1 2 3 4 sum.case)
  also have "\<dots> = Inr (?o\<lparr>audioBuffer := [],
            upstreams := (upstreams ?o)[0 := (upstreams ?o ! 0)
              \<lparr>sent := sent (upstreams ?o ! 0)
                        @ map (\<lambda>chunk. AudioInput chunk (sessionUuid ?o)) (audioBuffer ?o)
                        @ [AssistantInput (sessionUuid ?o) (HUMEAI_WELCOME_MESSAGE env)]\<rparr>]\<rparr>)"
    by (rule onUpstreamOpen_flush[OF o])
  also have "\<dots> = Inr (new_session
             \<lparr>sessionUuid := uuid, ws := Some 0,
              upstreams :=
                [\<lparr>readyState = OPEN,
                  sent = map (\<lambda>chunk. AudioInput chunk uuid)
                           (frames_in before @ frames_in after)
                         @ [AssistantInput uuid (HUMEAI_WELCOME_MESSAGE env)],
                  discarded = []\<rparr>]\<rparr>)"
    by (simp add: set_upstream_state_def new_session_def new_socket_def)
  finally show ?thesis .
qed

subsection \<open>Tool calls\<close>

lemma unknown_tool_step:
  assumes "getToolHandler env name = None" "ws s = Some k" "k < length (upstreams s)"
    "readyState (upstreams s ! k) = OPEN"
  shows "step env s (UpstreamMessage k (Parsed (ToolCall name call_id parameters)))
     = Inr (s\<lparr>upstreams := (upstreams s)[k := (upstreams s ! k)
                \<lparr>sent := sent (upstreams s ! k)
                   @ [ToolResponse call_id (ErrorContent (''Tool '' @ name @ '' not found''))]\<rparr>],
              errors := errors s @ [''No handler found for tool: '' @ name]\<rparr>)"
  using assms
  by (simp add: step_def Let_def console_error_def ws_send_current_open caught_def)

text \<open>
  Claim C5 names the payload \<open>{error: "tool <name> not found"}\<close>; the message the code
  sends starts with a capital letter.
\<close>

theorem unknown_tool_payload_is_capitalised:
  "step example_env ready_session
     (UpstreamMessage 0 (Parsed (ToolCall ''nope'' ''call-1'' ''{}'')))
   = Inr (ready_session
       \<lparr>upstreams :=
          [\<lparr>readyState = OPEN,
            sent = [AudioInput ''AAAA'' (Some ''u1''),
                    AssistantInput (Some ''u1'') ''Hello, how can I help you today?'',
                    ToolResponse ''call-1'' (ErrorContent ''Tool nope not found'')],
            discarded = []\<rparr>],
        errors := [''No handler found for tool: nope'']\<rparr>)
   \<and> ErrorContent ''Tool nope not found'' \<noteq> ErrorContent ''tool nope not found''"
  by (simp add: step_def Let_def console_error_def ws_send_current_def ws_send_def caught_def
        ready_session_def example_env_def new_socket_def)

text \<open>
  Claim C5, amended in the text of the payload. For every upstream tool call whose
  name the registry does not resolve, arriving on the current, open upstream socket,
  exactly one response is sent upstream, with the call's id and the error payload
  \<open>{error: "Tool <name> not found"}\<close>; nothing else changes but the error log, the
  upstream socket stays open, no socket changes its state, and every event the
  session could receive before it can still receive.
\<close>

theorem unknown_tool_answered:
  assumes "getToolHandler env name = None" and "ws s = Some k" and "k < length (upstreams s)"
    and "readyState (upstreams s ! k) = OPEN"
  shows "\<exists>s'. step env s (UpstreamMessage k (Parsed (ToolCall name call_id parameters))) = Inr s'
     \<and> s' = s\<lparr>upstreams := (upstreams s)[k := (upstreams s ! k)
                 \<lparr>sent := sent (upstreams s ! k)
                    @ [ToolResponse call_id (ErrorContent (''Tool '' @ name @ '' not found''))]\<rparr>],
               errors := errors s @ [''No handler found for tool: '' @ name]\<rparr>
     \<and> ws_is_open s'
     \<and> readyState (clientWs s') = readyState (clientWs s)
     \<and> (\<forall>e. enabled s' e = enabled s e)"
proof -
  let ?s' = "s\<lparr>upstreams := (upstreams s)[k := (upstreams s ! k)
                 \<lparr>sent := sent (upstreams s ! k)
                    @ [ToolResponse call_id (ErrorContent (''Tool '' @ name @ '' not found''))]\<rparr>],
               errors := errors s @ [''No handler found for tool: '' @ name]\<rparr>"
  have "enabled ?s' e = enabled s e" for e
    using assms(3) by (cases e) (auto simp: nth_list_update)
  moreover have "ws_is_open ?s'" using assms by (simp add: ws_is_open_def)
  ultimately show ?thesis
    using unknown_tool_step[OF assms] by simp
qed

text \<open>
  The amended claim on the ready session: an unknown tool is answered, a later audio
  message is forwarded and a second unknown tool is answered with its own id.
\<close>

theorem unknown_tool_answered_witness:
  "getToolHandler example_env ''nope'' = None
   \<and> ws ready_session = Some 0
   \<and> 0 < length (upstreams ready_session)
   \<and> readyState (upstreams ready_session ! 0) = OPEN
   \<and> run example_env ready_session
        [UpstreamMessage 0 (Parsed (ToolCall ''nope'' ''call-1'' ''{}'')),
         ClientMessage (Parsed (Audio (Some ''DDDD''))),
         UpstreamMessage 0 (Parsed (ToolCall ''nix'' ''call-2'' ''{}''))]
      = Inr (ready_session
          \<lparr>upstreams :=
             [\<lparr>readyState = OPEN,
               sent = [AudioInput ''AAAA'' (Some ''u1''),
                       AssistantInput (Some ''u1'') ''Hello, how can I help you today?'',
                       ToolResponse ''call-1'' (ErrorContent ''Tool nope not found''),
                       AudioInput ''DDDD'' (Some ''u1''),
                       ToolResponse ''call-2'' (ErrorContent ''Tool nix not found'')],
               discarded = []\<rparr>],
           errors := [''No handler found for tool: nope'', ''No handler found for tool: nix'']\<rparr>)"
proof -
  have h: "getToolHandler example_env ''nope'' = None" "ws ready_session = Some 0"
    "0 < length (upstreams ready_session)" "readyState (upstreams ready_session ! 0) = OPEN"
    by (simp_all add: example_env_def ready_session_def)
  from unknown_tool_answered[OF h, of "''call-1''" "''{}''"]
  have 1: "step example_env ready_session
             (UpstreamMessage 0 (Parsed (ToolCall ''nope'' ''call-1'' ''{}'')))
     = Inr (ready_session\<lparr>upstreams := (upstreams ready_session)[0 := (upstreams ready_session ! 0)
                 \<lparr>sent := sent (upstreams ready_session ! 0)
                    @ [ToolResponse ''call-1'' (ErrorContent (''Tool '' @ ''nope'' @ '' not found''))]\<rparr>],
               errors := errors ready_session @ [''No handler found for tool: '' @ ''nope'']\<rparr>)"
    by blast
  show ?thesis
    using h
    by (simp add: 1)
       (simp add: step_def Let_def console_error_def ws_send_current_def ws_send_def caught_def
          ws_is_open_def ready_session_def example_env_def new_socket_def)
qed

lemma tool_call_registered:
  assumes "getToolHandler env name = Some handler" "k < length (upstreams s)"
    "readyState (upstreams s ! k) = OPEN \<or> readyState (upstreams s ! k) = CLOSING"
  shows "step env s (UpstreamMessage k (Parsed (ToolCall name call_id parameters)))
         = Inr (s\<lparr>pending := pending s @ [(call_id, name, handler (sessionUuid s) parameters)]\<rparr>)"
  using assms by (auto simp: step_def)

lemma rejected_tool_settled:
  assumes "i < length (pending t)" "pending t ! i = (call_id, name, Rejected msg)"
    "ws t = Some k" "k < length (upstreams t)" "readyState (upstreams t ! k) = OPEN"
  shows "step env t (ToolSettled i)
     = Inr (t\<lparr>pending := take i (pending t) @ drop (Suc i) (pending t),
              upstreams := (upstreams t)[k := (upstreams t ! k)
                \<lparr>sent := sent (upstreams t ! k)
                   @ [ToolResponse call_id
                        (ErrorContent (''Error executing tool '' @ name @ '': '' @ msg))]\<rparr>],
              errors := errors t @ [''Error executing tool '' @ name @ '':'']\<rparr>)"
  using assms
  by (simp add: step_def toolFailed_def Let_def console_error_def ws_send_current_open caught_def)

text \<open>
  Claim C6. When the handler of an upstream tool call fails with a message, exactly one
  response is sent upstream, with the call's id and an error payload that contains the
  message; the failure is logged and leaves the handler as a value, and the session
  changes in nothing else: no socket is closed. This holds when the handler settles at
  once, and when it settles later in any state in which the call is pending and the
  upstream socket is open.
\<close>

theorem failing_tool_answered:
  "(getToolHandler env name = Some handler
      \<and> handler (sessionUuid s) parameters = Rejected msg
      \<and> ws s = Some k \<and> k < length (upstreams s) \<and> readyState (upstreams s ! k) = OPEN
    \<longrightarrow> run env s [UpstreamMessage k (Parsed (ToolCall name call_id parameters)),
                   ToolSettled (length (pending s))]
        = Inr (s\<lparr>upstreams := (upstreams s)[k := (upstreams s ! k)
                   \<lparr>sent := sent (upstreams s ! k)
                      @ [ToolResponse call_id
                           (ErrorContent (''Error executing tool '' @ name @ '': '' @ msg))]\<rparr>],
                 errors := errors s @ [''Error executing tool '' @ name @ '':'']\<rparr>))
   \<and> (i < length (pending t) \<and> pending t ! i = (call_id, name, Rejected msg)
      \<and> ws t = Some k \<and> k < length (upstreams t) \<and> readyState (upstreams t ! k) = OPEN
    \<longrightarrow> step env t (ToolSettled i)
        = Inr (t\<lparr>pending := take i (pending t) @ drop (Suc i) (pending t),
                 upstreams := (upstreams t)[k := (upstreams t ! k)
                   \<lparr>sent := sent (upstreams t ! k)
                      @ [ToolResponse call_id
                           (ErrorContent (''Error executing tool '' @ name @ '': '' @ msg))]\<rparr>],
                 errors := errors t @ [''Error executing tool '' @ name @ '':'']\<rparr>))"
proof (intro conjI impI)
  assume a: "getToolHandler env name = Some handler
      \<and> handler (sessionUuid s) parameters = Rejected msg
      \<and> ws s = Some k \<and> k < length (upstreams s) \<and> readyState (upstreams s ! k) = OPEN"
  let ?s1 = "s\<lparr>pending := pending s @ [(call_id, name, Rejected msg)]\<rparr>"
  have 1: "step env s (UpstreamMessage k (Parsed (ToolCall name call_id parameters))) = Inr ?s1"
    using a tool_call_registered[of env name handler k s call_id parameters] by simp
  have 2: "step env ?s1 (ToolSettled (length (pending s)))
     = Inr (?s1\<lparr>pending := take (length (pending s)) (pending ?s1)
                          @ drop (Suc (length (pending s))) (pending ?s1),
              upstreams := (upstreams ?s1)[k := (upstreams ?s1 ! k)
                \<lparr>sent := sent (upstreams ?s1 ! k)
                   @ [ToolResponse call_id
                        (ErrorContent (''Error executing tool '' @ name @ '': '' @ msg))]\<rparr>],
              errors := errors ?s1 @ [''Error executing tool '' @ name @ '':'']\<rparr>)"
    by (rule rejected_tool_settled) (use a in simp_all)
  show "run env s [UpstreamMessage k (Parsed (ToolCall name call_id parameters)),
                   ToolSettled (length (pending s))]
        = Inr (s\<lparr>upstreams := (upstreams s)[k := (upstreams s ! k)
                   \<lparr>sent := sent (upstreams s ! k)
                      @ [ToolResponse call_id
                           (ErrorContent (''Error executing tool '' @ name @ '': '' @ msg))]\<rparr>],
                 errors := errors s @ [''Error executing tool '' @ name @ '':'']\<rparr>)"
    by (simp add: 1 2)
next
  assume "i < length (pending t) \<and> pending t ! i = (call_id, name, Rejected msg)
      \<and> ws t = Some k \<and> k < length (upstreams t) \<and> readyState (upstreams t ! k) = OPEN"
  then show "step env t (ToolSettled i)
        = Inr (t\<lparr>pending := take i (pending t) @ drop (Suc i) (pending t),
                 upstreams := (upstreams t)[k := (upstreams t ! k)
                   \<lparr>sent := sent (upstreams t ! k)
                      @ [ToolResponse call_id
                           (ErrorContent (''Error executing tool '' @ name @ '': '' @ msg))]\<rparr>],
                 errors := errors t @ [''Error executing tool '' @ name @ '':'']\<rparr>)"
    by (simp add: rejected_tool_settled)
qed

text \<open>Claim C6 on the ready session, with the tool \<open>fail\<close>.\<close>

theorem failing_tool_answered_witness:
  "getToolHandler example_env ''fail'' = Some (\<lambda>uuid parameters. Rejected ''boom'')
   \<and> ws ready_session = Some 0
   \<and> 0 < length (upstreams ready_session)
   \<and> readyState (upstreams ready_session ! 0) = OPEN
   \<and> run example_env ready_session
        [UpstreamMessage 0 (Parsed (ToolCall ''fail'' ''call-7'' ''{}'')), ToolSettled 0]
      = Inr (ready_session
          \<lparr>upstreams :=
             [\<lparr>readyState = OPEN,
               sent = [AudioInput ''AAAA'' (Some ''u1''),
                       AssistantInput (Some ''u1'') ''Hello, how can I help you today?'',
                       ToolResponse ''call-7'' (ErrorContent ''Error executing tool fail: boom'')],
               discarded = []\<rparr>],
           errors := [''Error executing tool fail:'']\<rparr>)
   \<and> step example_env (ready_session\<lparr>pending := [(''call-7'', ''fail'', Rejected ''boom'')]\<rparr>)
        (ToolSettled 0)
      = Inr (ready_session
          \<lparr>upstreams :=
             [\<lparr>readyState = OPEN,
               sent = [AudioInput ''AAAA'' (Some ''u1''),
                       AssistantInput (Some ''u1'') ''Hello, how can I help you today?'',
                       ToolResponse ''call-7'' (ErrorContent ''Error executing tool fail: boom'')],
               discarded = []\<rparr>],
           errors := [''Error executing tool fail:'']\<rparr>)"
proof -
  let ?h = "\<lambda>(uuid :: string option) (parameters :: string). Rejected ''boom''"
  let ?t = "ready_session\<lparr>pending := [(''call-7'', ''fail'', Rejected ''boom'')]\<rparr>"
  have h: "getToolHandler example_env ''fail'' = Some ?h" "ws ready_session = Some 0"
    "0 < length (upstreams ready_session)" "readyState (upstreams ready_session ! 0) = OPEN"
    "?h (sessionUuid ready_session) ''{}'' = Rejected ''boom''"
    "length (pending ready_session) = 0"
    by (simp_all add: example_env_def ready_session_def)
  have g: "0 < length (pending ?t)" "pending ?t ! 0 = (''call-7'', ''fail'', Rejected ''boom'')"
    "ws ?t = Some 0" "0 < length (upstreams ?t)" "readyState (upstreams ?t ! 0) = OPEN"
    by (simp_all add: ready_session_def)
  note inst = failing_tool_answered
    [where env = example_env and name = "''fail''" and handler = ?h and s = ready_session
       and parameters = "''{}''" and msg = "''boom''" and k = 0 and call_id = "''call-7''"
       and i = 0 and t = ?t]
  from inst h have 1: "run example_env ready_session
        [UpstreamMessage 0 (Parsed (ToolCall ''fail'' ''call-7'' ''{}'')),
         ToolSettled (length (pending ready_session))]
      = Inr (ready_session\<lparr>upstreams := (upstreams ready_session)[0 := (upstreams ready_session ! 0)
                   \<lparr>sent := sent (upstreams ready_session ! 0)
                      @ [ToolResponse ''call-7''
                           (ErrorContent (''Error executing tool '' @ ''fail'' @ '': '' @ ''boom''))]\<rparr>],
                 errors := errors ready_session @ [''Error executing tool '' @ ''fail'' @ '':'']\<rparr>)"
    by blast
  from inst g have 2: "step example_env ?t (ToolSettled 0)
        = Inr (?t\<lparr>pending := take 0 (pending ?t) @ drop (Suc 0) (pending ?t),
                 upstreams := (upstreams ?t)[0 := (upstreams ?t ! 0)
                   \<lparr>sent := sent (upstreams ?t ! 0)
                      @ [ToolResponse ''call-7''
                           (ErrorContent (''Error executing tool '' @ ''fail'' @ '': '' @ ''boom''))]\<rparr>],
                 errors := errors ?t @ [''Error executing tool '' @ ''fail'' @ '':'']\<rparr>)"
    by blast
  have 3: "run example_env ready_session
        [UpstreamMessage 0 (Parsed (ToolCall ''fail'' ''call-7'' ''{}'')), ToolSettled 0]
      = Inr (ready_session
          \<lparr>upstreams :=
             [\<lparr>readyState = OPEN,
               sent = [AudioInput ''AAAA'' (Some ''u1''),
                       AssistantInput (Some ''u1'') ''Hello, how can I help you today?'',
                       ToolResponse ''call-7'' (ErrorContent ''Error executing tool fail: boom'')],
               discarded = []\<rparr>],
           errors := [''Error executing tool fail:'']\<rparr>)"
    using 1 unfolding h(6) by (simp add: ready_session_def)
  have 4: "step example_env ?t (ToolSettled 0)
      = Inr (ready_session
          \<lparr>upstreams :=
             [\<lparr>readyState = OPEN,
               sent = [AudioInput ''AAAA'' (Some ''u1''),
                       AssistantInput (Some ''u1'') ''Hello, how can I help you today?'',
                       ToolResponse ''call-7'' (ErrorContent ''Error executing tool fail: boom'')],
               discarded = []\<rparr>],
           errors := [''Error executing tool fail:'']\<rparr>)"
    unfolding 2 by (simp add: ready_session_def)
  from h(1-4) 3 4 show ?thesis by (simp only: simp_thms)
qed

text \<open>
  Two tool calls in flight settle in any order; each response carries the id of its
  own call.
\<close>

lemma tool_responses_carry_their_own_id:
  "run example_env ready_session
     [UpstreamMessage 0 (Parsed (ToolCall ''fail'' ''A'' ''{}'')),
      UpstreamMessage 0 (Parsed (ToolCall ''echo'' ''B'' ''{}'')),
      ToolSettled 1, ToolSettled 0]
   = Inr (ready_session
       \<lparr>upstreams :=
          [\<lparr>readyState = OPEN,
            sent = [AudioInput ''AAAA'' (Some ''u1''),
                    AssistantInput (Some ''u1'') ''Hello, how can I help you today?'',
                    ToolResponse ''B'' (ResultContent ''{}''),
                    ToolResponse ''A'' (ErrorContent ''Error executing tool fail: boom'')],
            discarded = []\<rparr>],
        errors := [''Error executing tool fail:'']\<rparr>)"
  by (simp add: step_def toolFailed_def Let_def console_error_def ws_send_current_def ws_send_def
        caught_def ready_session_def example_env_def)

subsection \<open>A second \<open>init\<close>\<close>

text \<open>
  Claim C8 does not hold: a second \<open>init\<close> in the connecting session replaces the session
  identity and dials a second upstream socket.
\<close>

theorem second_init_changes_the_session:
  "step example_env connecting_session (ClientMessage (Parsed (Init (Some ''u2''))))
   = Inr (connecting_session
       \<lparr>sessionUuid := Some ''u2'', ws := Some 1,
        upstreams := [new_socket CONNECTING, new_socket CONNECTING]\<rparr>)
   \<and> connecting_session
       \<lparr>sessionUuid := Some ''u2'', ws := Some 1,
        upstreams := [new_socket CONNECTING, new_socket CONNECTING]\<rparr>
     \<noteq> connecting_session"
proof -
  have "ws (connecting_session
       \<lparr>sessionUuid := Some ''u2'', ws := Some 1,
        upstreams := [new_socket CONNECTING, new_socket CONNECTING]\<rparr>) \<noteq> ws connecting_session"
    by (simp add: connecting_session_def)
  then have "connecting_session
       \<lparr>sessionUuid := Some ''u2'', ws := Some 1,
        upstreams := [new_socket CONNECTING, new_socket CONNECTING]\<rparr>
     \<noteq> connecting_session" by metis
  then show ?thesis
    by (simp add: step_def initializeHumeAIConnection_def example_env_def
          connecting_session_def new_socket_def)
qed

text \<open>
  Claim C8, amended. In a session that has dialled, a second \<open>init\<close> is not treated as
  an error, but it is not ignored either: when the socket constructor does not raise,
  the session identity becomes the new \<open>uuid\<close>, a new upstream socket is dialled and
  becomes the current one, the earlier upstream socket is left as it is, and the
  pending audio queue, the client socket and the pending tool calls are unchanged.
\<close>

theorem second_init_redials:
  assumes "ws s = Some k" and "k < length (upstreams s)"
    and "readyState (clientWs s) = OPEN" and "\<not> WebSocket_throws env"
  shows "\<exists>s'. step env s (ClientMessage (Parsed (Init uuid))) = Inr s'
     \<and> sessionUuid s' = uuid
     \<and> upstreams s' = upstreams s @ [new_socket CONNECTING]
     \<and> ws s' = Some (length (upstreams s))
     \<and> ws s' \<noteq> ws s
     \<and> upstreams s' ! k = upstreams s ! k
     \<and> audioBuffer s' = audioBuffer s
     \<and> clientWs s' = clientWs s
     \<and> pending s' = pending s"
  using assms
  by (auto simp: step_def initializeHumeAIConnection_def Let_def console_error_def nth_append)

text \<open>The amended claim on the connecting session.\<close>

theorem second_init_redials_witness:
  "ws connecting_session = Some 0
   \<and> 0 < length (upstreams connecting_session)
   \<and> readyState (clientWs connecting_session) = OPEN
   \<and> \<not> WebSocket_throws example_env
   \<and> (\<exists>s'. step example_env connecting_session (ClientMessage (Parsed (Init (Some ''u2''))))
            = Inr s'
        \<and> sessionUuid s' = Some ''u2''
        \<and> upstreams s' = [new_socket CONNECTING, new_socket CONNECTING]
        \<and> ws s' = Some 1)"
proof -
  have h: "ws connecting_session = Some 0" "0 < length (upstreams connecting_session)"
    "readyState (clientWs connecting_session) = OPEN" "\<not> WebSocket_throws example_env"
    by (simp_all add: connecting_session_def example_env_def new_socket_def)
  have u: "upstreams connecting_session = [new_socket CONNECTING]"
    by (simp add: connecting_session_def)
  from second_init_redials[OF h, of "Some ''u2''"] h show ?thesis
    unfolding u by auto
qed

subsection \<open>What a step leaves alone\<close>

lemma keeps_refl: "keeps k s s"
  by (simp add: keeps_def)

lemma keeps_trans:
  assumes "keeps k s t" and "keeps k t u"
  shows "keeps k s u"
proof -
  from assms have len: "length (upstreams s) \<le> length (upstreams t)"
    "length (upstreams t) \<le> length (upstreams u)"
    by (simp_all add: keeps_def)
  have c: "closing (clientWs u) \<and> sent (clientWs u) = sent (clientWs s)"
    if "closing (clientWs s)"
    using that assms by (simp add: keeps_def)
  have a: "closing (upstreams u ! k) \<and> sent (upstreams u ! k) = sent (upstreams s ! k)"
    if "k < length (upstreams s)" "closing (upstreams s ! k)"
  proof -
    from that len have kt: "k < length (upstreams t)" by simp
    from that assms(1) have "closing (upstreams t ! k)"
      "sent (upstreams t ! k) = sent (upstreams s ! k)"
      by (simp_all add: keeps_def)
    with kt assms(2) show ?thesis by (simp add: keeps_def)
  qed
  have b: "ws u \<noteq> Some k \<and> sent (upstreams u ! k) = sent (upstreams s ! k)
           \<and> discarded (upstreams u ! k) = discarded (upstreams s ! k)"
    if "k < length (upstreams s)" "ws s \<noteq> Some k"
  proof -
    from that len have kt: "k < length (upstreams t)" by simp
    from that assms(1) have "ws t \<noteq> Some k"
      "sent (upstreams t ! k) = sent (upstreams s ! k)"
      "discarded (upstreams t ! k) = discarded (upstreams s ! k)"
      by (simp_all add: keeps_def)
    with kt assms(2) show ?thesis by (simp add: keeps_def)
  qed
  from len a b c show ?thesis unfolding keeps_def by (meson le_trans)
qed

lemma keeps_console_error: "keeps k s (console_error line s)"
  by (simp add: keeps_def console_error_def)

lemma keeps_ws_send_current:
  assumes "ws_send_current s m = Inr s'"
  shows "keeps k s s'"
proof (cases "ws s")
  case None
  with assms show ?thesis by (simp add: ws_send_current_def)
next
  case (Some j)
  show ?thesis
  proof (cases "j < length (upstreams s)")
    case False
    with assms Some show ?thesis
      by (auto simp: ws_send_current_def keeps_def split: sum.splits)
  next
    case True
    with assms Some show ?thesis
      by (cases "readyState (upstreams s ! j)")
         (auto simp: ws_send_current_def ws_send_def keeps_def closing_def nth_list_update
               split: if_splits)
  qed
qed

lemma keeps_clientWs_send:
  assumes "clientWs_send s m = Inr s'"
  shows "keeps k s s'"
  using assms
  by (cases "readyState (clientWs s)")
     (auto simp: clientWs_send_def ws_send_def keeps_def closing_def)

lemma keeps_caught:
  assumes "\<And>s'. r = Inr s' \<Longrightarrow> keeps k s s'"
  shows "keeps k s (caught s r)"
  using assms by (cases r) (simp_all add: caught_def keeps_console_error)

lemma ws_close_simps:
  "sent (ws_close sock) = sent sock"
  "discarded (ws_close sock) = discarded sock"
  "closing (ws_close sock)"
  "closing sock \<Longrightarrow> ws_close sock = sock"
  by (cases "readyState sock"; simp add: ws_close_def closing_def)+

lemma cleanup_simps:
  "length (upstreams (cleanup s)) = length (upstreams s)"
  "ws (cleanup s) = None"
  "audioBuffer (cleanup s) = []"
  "clientWs (cleanup s)
   = (if readyState (clientWs s) = OPEN then ws_close (clientWs s) else clientWs s)"
  "upstreams (cleanup s)
   = (case ws s of None \<Rightarrow> upstreams s
      | Some j \<Rightarrow> (upstreams s)[j := ws_close (upstreams s ! j)])"
  "sessionUuid (cleanup s) = sessionUuid s"
  "pending (cleanup s) = pending s"
  "errors (cleanup s) = errors s"
  by (simp_all add: cleanup_def Let_def split: option.splits)

lemma cleanup_upstream:
  "k < length (upstreams s) \<Longrightarrow>
   upstreams (cleanup s) ! k
   = (if ws s = Some k then ws_close (upstreams s ! k) else upstreams s ! k)"
  by (cases "ws s") (auto simp: cleanup_simps nth_list_update)

lemma keeps_cleanup: "keeps k s (cleanup s)"
proof -
  have c: "closing (clientWs (cleanup s)) \<and> sent (clientWs (cleanup s)) = sent (clientWs s)"
    if "closing (clientWs s)"
    using that by (auto simp: cleanup_simps closing_def)
  have u: "sent (upstreams (cleanup s) ! k) = sent (upstreams s ! k)"
    "discarded (upstreams (cleanup s) ! k) = discarded (upstreams s ! k)"
    "closing (upstreams s ! k) \<Longrightarrow> closing (upstreams (cleanup s) ! k)"
    if "k < length (upstreams s)"
    using that by (simp_all add: cleanup_upstream ws_close_simps)
  from c u show ?thesis
    unfolding keeps_def by (simp add: cleanup_simps(1,2))
qed

lemma keeps_initialize:
  assumes "initializeHumeAIConnection env s = Inr s'"
  shows "keeps k s s'"
proof (cases "WebSocket_throws env")
  case True
  let ?s1 = "if loadTools_throws env then console_error ''Error loading tools for Hume:'' s else s"
  let ?s2 = "console_error ''Failed to initialize HumeAI connection:'' ?s1"
  have a: "keeps k s ?s1" by (simp add: keeps_refl keeps_console_error)
  have b: "keeps k ?s1 ?s2" by (rule keeps_console_error)
  from assms True have "clientWs_send ?s2 (ErrorToClient ''Failed to connect to HumeAI API'') = Inr s'"
    by (simp add: initializeHumeAIConnection_def Let_def)
  then have "keeps k ?s2 s'" by (rule keeps_clientWs_send)
  with a b show ?thesis by (blast intro: keeps_trans)
next
  case False
  let ?s1 = "if loadTools_throws env then console_error ''Error loading tools for Hume:'' s else s"
  have u: "upstreams ?s1 = upstreams s" "ws ?s1 = ws s" "clientWs ?s1 = clientWs s"
    by (simp_all add: console_error_def)
  from assms False
  have s': "s' = ?s1\<lparr>upstreams := upstreams ?s1 @ [new_socket CONNECTING],
                        ws := Some (length (upstreams ?s1))\<rparr>"
    by (simp add: initializeHumeAIConnection_def Let_def)
  have "upstreams s' = upstreams s @ [new_socket CONNECTING]"
    "ws s' = Some (length (upstreams s))" "clientWs s' = clientWs s"
    unfolding s' by (simp_all add: u)
  then show ?thesis by (simp add: keeps_def nth_append)
qed

lemma keeps_sendBuffered:
  "sendBuffered s chunks = Inr s' \<Longrightarrow> keeps k s s'"
proof (induction chunks arbitrary: s)
  case Nil
  then show ?case by (simp add: keeps_refl)
next
  case (Cons chunk chunks)
  then obtain t where t: "ws_send_current s (AudioInput chunk (sessionUuid s)) = Inr t"
    and r: "sendBuffered t chunks = Inr s'"
    by (auto split: sum.splits)
  from keeps_ws_send_current[OF t] Cons.IH[OF r] show ?case by (rule keeps_trans)
qed

lemma keeps_audioBuffer: "keeps k s t \<Longrightarrow> keeps k s (t\<lparr>audioBuffer := b\<rparr>)"
  by (simp add: keeps_def)

lemma keeps_onUpstreamOpen:
  assumes "onUpstreamOpen env s = Inr s'"
  shows "keeps k s s'"
proof (cases "audioBuffer s = []")
  case True
  with assms show ?thesis by (simp add: onUpstreamOpen_def keeps_ws_send_current)
next
  case False
  with assms obtain t where t: "sendBuffered s (audioBuffer s) = Inr t"
    and r: "ws_send_current (t\<lparr>audioBuffer := []\<rparr>)
              (AssistantInput (sessionUuid (t\<lparr>audioBuffer := []\<rparr>)) (HUMEAI_WELCOME_MESSAGE env))
            = Inr s'"
    by (auto simp: onUpstreamOpen_def split: sum.splits)
  from keeps_audioBuffer[OF keeps_sendBuffered[OF t]] keeps_ws_send_current[OF r]
  show ?thesis by (rule keeps_trans)
qed

lemma keeps_onClientMessage:
  assumes "onClientMessage env s w = Inr s'"
  shows "keeps k s s'"
proof (cases w)
  case Malformed
  with assms show ?thesis by simp
next
  case (Parsed m)
  show ?thesis
  proof (cases m)
    case (Init uuid)
    have a: "keeps k s (s\<lparr>sessionUuid := uuid\<rparr>)" by (simp add: keeps_def)
    from assms Parsed Init
    have "initializeHumeAIConnection env (s\<lparr>sessionUuid := uuid\<rparr>) = Inr s'" by simp
    from a keeps_initialize[OF this] show ?thesis by (rule keeps_trans)
  next
    case (Audio a)
    show ?thesis
    proof (cases a)
      case None
      with assms Parsed Audio show ?thesis by (simp add: keeps_refl)
    next
      case (Some audioBase64)
      show ?thesis
      proof (cases "audioBase64 = []")
        case True
        with assms Parsed Audio Some show ?thesis by (simp add: keeps_refl)
      next
        case False
        show ?thesis
        proof (cases "ws_is_open s")
          case True
          with assms Parsed Audio Some False show ?thesis
            by (simp add: keeps_ws_send_current)
        next
          case no: False
          with assms Parsed Audio Some False
          have "s' = s\<lparr>audioBuffer := audioBuffer s @ [audioBase64]\<rparr>" by simp
          then show ?thesis by (simp add: keeps_def)
        qed
      qed
    qed
  next
    case OtherClient
    with assms Parsed show ?thesis by (simp add: keeps_refl)
  qed
qed

lemma keeps_toolFailed: "keeps k s (toolFailed s call_id name msg)"
  unfolding toolFailed_def Let_def
  by (rule keeps_trans[OF keeps_console_error keeps_caught]) (rule keeps_ws_send_current)

lemma keeps_toolSettled: "keeps k s (toolSettled s call)"
proof -
  obtain call_id name out where c: "call = (call_id, name, out)" by (cases call) auto
  show ?thesis
  proof (cases out)
    case (Resolved result)
    show ?thesis
    proof (cases "ws_send_current s (ToolResponse call_id (ResultContent result))")
      case (Inl e)
      with c Resolved show ?thesis by (simp add: keeps_toolFailed)
    next
      case (Inr s')
      with c Resolved show ?thesis by (simp add: keeps_ws_send_current)
    qed
  next
    case (Rejected msg)
    with c show ?thesis by (simp add: keeps_toolFailed)
  qed
qed

lemma keeps_relay: "keeps k s (caught s (clientWs_send s m))"
  by (rule keeps_caught) (rule keeps_clientWs_send)

lemma keeps_onUpstreamMessage: "keeps k s (onUpstreamMessage env s w)"
proof (cases w)
  case Malformed
  then show ?thesis by (simp add: keeps_console_error)
next
  case (Parsed m)
  show ?thesis
  proof (cases m)
    case (AudioOutput d)
    with Parsed show ?thesis
      by (cases "convertProviderTo8k env d") (simp_all add: keeps_console_error keeps_relay)
  next
    case UserInterruption
    with Parsed show ?thesis by (simp add: keeps_relay)
  next
    case (UserMessage c)
    with Parsed show ?thesis by (simp add: keeps_relay)
  next
    case (AssistantMessage c)
    with Parsed show ?thesis by (simp add: keeps_relay)
  next
    case (ToolCall name call_id parameters)
    show ?thesis
    proof (cases "getToolHandler env name")
      case None
      have "keeps k s (caught (console_error (''No handler found for tool: '' @ name) s)
              (ws_send_current (console_error (''No handler found for tool: '' @ name) s)
                 (ToolResponse call_id (ErrorContent (''Tool '' @ name @ '' not found'')))))"
        by (rule keeps_trans[OF keeps_console_error keeps_caught]) (rule keeps_ws_send_current)
      with Parsed ToolCall None show ?thesis by (simp add: Let_def)
    next
      case (Some handler)
      with Parsed ToolCall show ?thesis by (simp add: keeps_def)
    qed
  next
    case OtherUpstream
    with Parsed show ?thesis by (simp add: keeps_refl)
  qed
qed

lemma step_keeps:
  assumes "step env s e = Inr s'"
  shows "keeps k s s'"
proof (cases "enabled s e")
  case False
  with assms show ?thesis by (simp add: step_def keeps_refl)
next
  case True
  with assms have d: "deliver env s e = Inr s'" by (simp add: step_def)
  show ?thesis
  proof (cases e)
    case (ClientMessage w)
    with d show ?thesis by (simp add: keeps_onClientMessage)
  next
    case ClientClose
    have "keeps k s (set_client_state CLOSED s)"
      by (simp add: keeps_def set_client_state_def closing_def)
    with d ClientClose show ?thesis by (auto intro: keeps_trans keeps_cleanup)
  next
    case ClientError
    have "keeps k s (console_error ''Client WebSocket error:'' (set_client_state CLOSING s))"
      by (simp add: keeps_def set_client_state_def closing_def console_error_def)
    with d ClientError show ?thesis by (auto intro: keeps_trans keeps_cleanup)
  next
    case (UpstreamOpen j)
    with True have "keeps k s (set_upstream_state j OPEN s)"
      by (auto simp: keeps_def set_upstream_state_def closing_def nth_list_update)
    with d UpstreamOpen show ?thesis by (auto intro: keeps_trans keeps_onUpstreamOpen)
  next
    case (UpstreamMessage j w)
    with d show ?thesis by (auto simp: keeps_onUpstreamMessage)
  next
    case (UpstreamError j)
    with True
    have "keeps k s (console_error ''HumeAI WebSocket error:'' (set_upstream_state j CLOSING s))"
      by (auto simp: keeps_def set_upstream_state_def closing_def nth_list_update
            console_error_def)
    with d UpstreamError show ?thesis by (auto intro: keeps_trans keeps_clientWs_send)
  next
    case (UpstreamClose j)
    with True have "keeps k s (set_upstream_state j CLOSED s)"
      by (auto simp: keeps_def set_upstream_state_def closing_def nth_list_update)
    with d UpstreamClose show ?thesis by (auto intro: keeps_trans keeps_cleanup)
  next
    case (ToolSettled i)
    have "keeps k s (s\<lparr>pending := take i (pending s) @ drop (Suc i) (pending s)\<rparr>)"
      by (simp add: keeps_def)
    with d ToolSettled show ?thesis by (auto intro: keeps_trans keeps_toolSettled)
  qed
qed

lemma run_keeps:
  "run env s es = Inr s' \<Longrightarrow> keeps k s s'"
proof (induction es arbitrary: s)
  case Nil
  then show ?case by (simp add: keeps_refl)
next
  case (Cons e es)
  then obtain t where t: "step env s e = Inr t" and r: "run env t es = Inr s'"
    by (auto split: sum.splits)
  from step_keeps[OF t] Cons.IH[OF r] show ?case by (rule keeps_trans)
qed

subsection \<open>The session of index.ts\<close>

lemma sendQueued_returns:
  "\<exists>frames' finished. sendQueued h q frames = Some (frames', finished)"
proof (induction q arbitrary: frames)
  case Nil
  then show ?case by auto
next
  case (Cons a q)
  show ?case
  proof (cases a)
    case None
    then show ?thesis by auto
  next
    case (Some clientAudio)
    from sendAudioInChunks_returns[of h clientAudio frames]
    obtain f where "sendAudioInChunks CHUNK_SIZE h clientAudio frames = Some f" by blast
    with Some Cons.IH[of f] show ?thesis by simp
  qed
qed

lemma flushQueue_cases:
  "(humeSocket s \<noteq> Some OPEN \<and> flushQueue s = Some s)
   \<or> (humeSocket s = Some OPEN
      \<and> (\<exists>s'. flushQueue s = Some s' \<and> humeSocket s' = Some OPEN
             \<and> ts_clientWs s' = ts_clientWs s \<and> sessionSettings s' = sessionSettings s))"
proof (cases "humeSocket s = Some OPEN")
  case False
  then show ?thesis by (simp add: flushQueue_def)
next
  case True
  show ?thesis
  proof (cases "queued s = []")
    case e: True
    with True show ?thesis by (simp add: flushQueue_def)
  next
    case ne: False
    from sendQueued_returns[of "humeSocket s" "queued s" "audioInputs s"]
    obtain f fin where "sendQueued (humeSocket s) (queued s) (audioInputs s) = Some (f, fin)"
      by blast
    with True ne show ?thesis
      by (cases fin) (simp_all add: flushQueue_def ts_console_error_def)
  qed
qed

lemma ts_onClientMessage_guarded:
  "\<exists>s'. ts_onClientMessage c s w = Some s'
     \<and> discarded (ts_clientWs s') = discarded (ts_clientWs s)
     \<and> sent (ts_clientWs s') = sent (ts_clientWs s)
     \<and> (humeSocket s' \<noteq> Some OPEN
          \<longrightarrow> audioInputs s' = audioInputs s \<and> sessionSettings s' = sessionSettings s)"
proof (cases w)
  case Malformed
  then show ?thesis
    by (simp add: ts_catch_def ts_console_error_def ws_close_simps)
next
  case (Parsed m)
  show ?thesis
  proof (cases m)
    case (TsAudio audio)
    from flushQueue_cases[of "s\<lparr>queued := queued s @ [audio]\<rparr>"] Parsed TsAudio
    show ?thesis by auto
  next
    case TsInit
    show ?thesis
    proof (cases c)
      case None
      with Parsed TsInit show ?thesis
        by (simp add: ts_catch_def ts_console_error_def ws_close_simps)
    next
      case (Some st)
      from flushQueue_cases[of "s\<lparr>humeSocket := Some st\<rparr>"] Parsed TsInit Some
      show ?thesis by (cases "st = OPEN") (auto simp: Let_def)
    qed
  next
    case TsOther
    with Parsed show ?thesis by simp
  qed
qed

lemma ts_step_guarded:
  "\<exists>s'. ts_step c s e = Some s'
     \<and> discarded (ts_clientWs s') = discarded (ts_clientWs s)
     \<and> (readyState (ts_clientWs s) \<noteq> OPEN \<longrightarrow> sent (ts_clientWs s') = sent (ts_clientWs s))
     \<and> (humeSocket s' \<noteq> Some OPEN
          \<longrightarrow> audioInputs s' = audioInputs s \<and> sessionSettings s' = sessionSettings s)"
proof (cases "ts_enabled s e")
  case False
  then show ?thesis by (simp add: ts_step_def)
next
  case True
  show ?thesis
  proof (cases e)
    case (TsClientMessage w)
    from ts_onClientMessage_guarded[of c s w] True TsClientMessage show ?thesis
      by (auto simp: ts_step_def)
  next
    case TsClientClose
    with True show ?thesis by (simp add: ts_step_def ts_onClientClose_def)
  next
    case TsHumeOpen
    with True show ?thesis by (simp add: ts_step_def ts_onHumeOpen_def)
  next
    case (TsHumeMessage m)
    with True show ?thesis
      by (cases m)
         (auto simp: ts_step_def ts_console_error_def split: sum.splits option.splits)
  next
    case TsHumeError
    with True show ?thesis by (simp add: ts_step_def ts_onHumeError_def ts_console_error_def)
  next
    case TsHumeClose
    with True show ?thesis by (simp add: ts_step_def ts_onHumeClose_def ws_close_simps)
  qed
qed

subsection \<open>Malformed client messages\<close>

text \<open>
  The second handler of index.js parses outside any \<open>try\<close> block: the syntax error
  leaves the handler.
\<close>

lemma malformed_message_escapes_index_js:
  "onClientMessage env s Malformed = Inl SyntaxError"
  by simp

text \<open>
  Claim C7 does not hold of index.ts: the \<open>catch\<close> of its message handler closes the
  client socket.
\<close>

theorem malformed_message_closes_client_ts:
  "readyState (ts_clientWs new_ts_session) = OPEN
   \<and> ts_step None new_ts_session (TsClientMessage Malformed)
     = Some (new_ts_session
         \<lparr>ts_clientWs := new_socket CLOSING,
          ts_errors := [''Error processing message from client:'']\<rparr>)"
  by (simp add: ts_step_def ts_catch_def ts_console_error_def ws_close_def new_ts_session_def
        new_socket_def)

text \<open>
  Claim C7, amended. For a client message that is not valid JSON, the handler of
  index.ts logs the error and calls \<open>close\<close> on the client socket, which leaves the open
  state; the first handler of index.js logs the error and drops the message, leaving
  the session identity and the client socket as they are.
\<close>

theorem malformed_client_message:
  "(readyState (ts_clientWs t) = OPEN
      \<longrightarrow> ts_step c t (TsClientMessage Malformed)
          = Some (t\<lparr>ts_errors := ts_errors t @ [''Error processing message from client:''],
                    ts_clientWs := (ts_clientWs t)\<lparr>readyState := CLOSING\<rparr>\<rparr>))
   \<and> onClientMessage_v1 v Malformed
       = v\<lparr>v1_errors := v1_errors v @ [''Error processing client message:'']\<rparr>
   \<and> v1_clientWs (onClientMessage_v1 v Malformed) = v1_clientWs v
   \<and> v1_sessionUuid (onClientMessage_v1 v Malformed) = v1_sessionUuid v"
  by (simp add: ts_step_def ts_catch_def ts_console_error_def ws_close_def)

text \<open>The amended claim on new sessions.\<close>

theorem malformed_client_message_witness:
  "readyState (ts_clientWs new_ts_session) = OPEN
   \<and> ts_step (Some CONNECTING) new_ts_session (TsClientMessage Malformed)
     = Some (new_ts_session
         \<lparr>ts_errors := [''Error processing message from client:''],
          ts_clientWs := new_socket CLOSING\<rparr>)
   \<and> onClientMessage_v1
         \<lparr>v1_sessionUuid = Some ''u1'', v1_clientWs = new_socket OPEN, v1_errors = []\<rparr> Malformed
     = \<lparr>v1_sessionUuid = Some ''u1'', v1_clientWs = new_socket OPEN,
        v1_errors = [''Error processing client message:'']\<rparr>"
proof -
  have h: "readyState (ts_clientWs new_ts_session) = OPEN"
    by (simp add: new_ts_session_def new_socket_def)
  from malformed_client_message
         [where t = new_ts_session and c = "Some CONNECTING"
            and v = "\<lparr>v1_sessionUuid = Some ''u1'', v1_clientWs = new_socket OPEN,
                      v1_errors = []\<rparr>"] h
  show ?thesis by (simp add: new_ts_session_def new_socket_def)
qed

subsection \<open>Teardown\<close>

lemma cleanup_idem: "cleanup (cleanup s) = cleanup s"
  by (cases "readyState (clientWs s)")
     (simp_all add: cleanup_def Let_def ws_close_def split: option.splits)

lemma client_close_step:
  assumes "ws s = Some k" "k < length (upstreams s)" "readyState (upstreams s ! k) = OPEN"
    "readyState (clientWs s) \<noteq> CLOSED"
  shows "step env s ClientClose
     = Inr (s\<lparr>clientWs := (clientWs s)\<lparr>readyState := CLOSED\<rparr>,
              upstreams := (upstreams s)[k := (upstreams s ! k)\<lparr>readyState := CLOSING\<rparr>],
              ws := None, audioBuffer := []\<rparr>)"
  using assms
  by (simp add: step_def cleanup_def Let_def set_client_state_def ws_close_def)

lemma upstream_close_step:
  assumes "ws s = Some k" "k < length (upstreams s)" "readyState (upstreams s ! k) \<noteq> CLOSED"
    "readyState (clientWs s) = OPEN"
  shows "step env s (UpstreamClose k)
     = Inr (s\<lparr>upstreams := (upstreams s)[k := (upstreams s ! k)\<lparr>readyState := CLOSED\<rparr>],
              ws := None,
              clientWs := (clientWs s)\<lparr>readyState := CLOSING\<rparr>,
              audioBuffer := []\<rparr>)"
  using assms
  by (simp add: step_def cleanup_def Let_def set_upstream_state_def ws_close_def)

text \<open>
  Claim C9 does not hold of index.js in full: after the client socket has closed, an
  upstream message that is still delivered makes the handler call \<open>send\<close> on the closed
  client socket, which discards the message.
\<close>

theorem closed_client_socket_still_gets_send_calls:
  "run example_env ready_session [ClientClose, UpstreamMessage 0 (Parsed UserInterruption)]
   = Inr (ready_session
       \<lparr>ws := None,
        upstreams :=
          [\<lparr>readyState = CLOSING,
            sent = [AudioInput ''AAAA'' (Some ''u1''),
                    AssistantInput (Some ''u1'') ''Hello, how can I help you today?''],
            discarded = []\<rparr>],
        clientWs := \<lparr>readyState = CLOSED, sent = [], discarded = [Interruption]\<rparr>\<rparr>)"
  by (simp add: step_def cleanup_def Let_def set_client_state_def ws_close_def caught_def
        clientWs_send_def ws_send_def ready_session_def new_socket_def)

text \<open>
  Claim C9, amended. In index.js, the close of the client socket closes the current,
  open upstream socket, and the close of the current upstream socket closes the open
  client socket; a second \<open>cleanup\<close> changes nothing and cannot raise; whatever events
  follow, a closing or closed socket transmits no further message, and \<open>send\<close> is not
  called on an upstream socket that is no longer the current one. In index.ts, the
  close of the client socket closes the open upstream socket and the close of the
  upstream socket closes the open client socket; both close handlers change nothing
  when run twice; every step returns, \<open>send\<close> is never called on a client socket that is
  not open, and nothing is passed to an upstream socket that is not open.
\<close>

theorem teardown_closes_both_sides:
  "(ws s = Some k \<and> k < length (upstreams s) \<and> readyState (upstreams s ! k) = OPEN
      \<and> readyState (clientWs s) \<noteq> CLOSED
    \<longrightarrow> step env s ClientClose
        = Inr (s\<lparr>clientWs := (clientWs s)\<lparr>readyState := CLOSED\<rparr>,
                 upstreams := (upstreams s)[k := (upstreams s ! k)\<lparr>readyState := CLOSING\<rparr>],
                 ws := None, audioBuffer := []\<rparr>))
   \<and> (ws s = Some k \<and> k < length (upstreams s) \<and> readyState (upstreams s ! k) \<noteq> CLOSED
      \<and> readyState (clientWs s) = OPEN
    \<longrightarrow> step env s (UpstreamClose k)
        = Inr (s\<lparr>upstreams := (upstreams s)[k := (upstreams s ! k)\<lparr>readyState := CLOSED\<rparr>],
                 ws := None,
                 clientWs := (clientWs s)\<lparr>readyState := CLOSING\<rparr>,
                 audioBuffer := []\<rparr>))
   \<and> cleanup (cleanup s) = cleanup s
   \<and> (run env s es = Inr s'
    \<longrightarrow> (closing (clientWs s) \<longrightarrow> sent (clientWs s') = sent (clientWs s))
        \<and> (k < length (upstreams s) \<and> closing (upstreams s ! k)
            \<longrightarrow> sent (upstreams s' ! k) = sent (upstreams s ! k))
        \<and> (k < length (upstreams s) \<and> ws s \<noteq> Some k
            \<longrightarrow> sent (upstreams s' ! k) = sent (upstreams s ! k)
                \<and> discarded (upstreams s' ! k) = discarded (upstreams s ! k)))
   \<and> (humeSocket t = Some OPEN \<and> readyState (ts_clientWs t) \<noteq> CLOSED
    \<longrightarrow> ts_step c t TsClientClose
        = Some (t\<lparr>ts_clientWs := (ts_clientWs t)\<lparr>readyState := CLOSED\<rparr>,
                  humeSocket := Some CLOSING\<rparr>))
   \<and> (humeSocket t = Some OPEN \<and> readyState (ts_clientWs t) = OPEN
    \<longrightarrow> ts_step c t TsHumeClose
        = Some (t\<lparr>humeSocket := Some CLOSED,
                  ts_clientWs := (ts_clientWs t)\<lparr>readyState := CLOSING\<rparr>\<rparr>))
   \<and> ts_onClientClose (ts_onClientClose t) = ts_onClientClose t
   \<and> ts_onHumeClose (ts_onHumeClose t) = ts_onHumeClose t
   \<and> (\<exists>t'. ts_step c t e = Some t'
         \<and> discarded (ts_clientWs t') = discarded (ts_clientWs t)
         \<and> (readyState (ts_clientWs t) \<noteq> OPEN
              \<longrightarrow> sent (ts_clientWs t') = sent (ts_clientWs t))
         \<and> (humeSocket t' \<noteq> Some OPEN
              \<longrightarrow> audioInputs t' = audioInputs t \<and> sessionSettings t' = sessionSettings t))"
proof (intro conjI)
  show "ws s = Some k \<and> k < length (upstreams s) \<and> readyState (upstreams s ! k) = OPEN
      \<and> readyState (clientWs s) \<noteq> CLOSED
    \<longrightarrow> step env s ClientClose
        = Inr (s\<lparr>clientWs := (clientWs s)\<lparr>readyState := CLOSED\<rparr>,
                 upstreams := (upstreams s)[k := (upstreams s ! k)\<lparr>readyState := CLOSING\<rparr>],
                 ws := None, audioBuffer := []\<rparr>)"
    by (simp add: client_close_step)
  show "ws s = Some k \<and> k < length (upstreams s) \<and> readyState (upstreams s ! k) \<noteq> CLOSED
      \<and> readyState (clientWs s) = OPEN
    \<longrightarrow> step env s (UpstreamClose k)
        = Inr (s\<lparr>upstreams := (upstreams s)[k := (upstreams s ! k)\<lparr>readyState := CLOSED\<rparr>],
                 ws := None,
                 clientWs := (clientWs s)\<lparr>readyState := CLOSING\<rparr>,
                 audioBuffer := []\<rparr>)"
    by (simp add: upstream_close_step)
  show "cleanup (cleanup s) = cleanup s" by (rule cleanup_idem)
  show "run env s es = Inr s'
    \<longrightarrow> (closing (clientWs s) \<longrightarrow> sent (clientWs s') = sent (clientWs s))
        \<and> (k < length (upstreams s) \<and> closing (upstreams s ! k)
            \<longrightarrow> sent (upstreams s' ! k) = sent (upstreams s ! k))
        \<and> (k < length (upstreams s) \<and> ws s \<noteq> Some k
            \<longrightarrow> sent (upstreams s' ! k) = sent (upstreams s ! k)
                \<and> discarded (upstreams s' ! k) = discarded (upstreams s ! k))"
  proof
    assume "run env s es = Inr s'"
    then have "keeps k s s'" by (rule run_keeps)
    then show "(closing (clientWs s) \<longrightarrow> sent (clientWs s') = sent (clientWs s))
        \<and> (k < length (upstreams s) \<and> closing (upstreams s ! k)
            \<longrightarrow> sent (upstreams s' ! k) = sent (upstreams s ! k))
        \<and> (k < length (upstreams s) \<and> ws s \<noteq> Some k
            \<longrightarrow> sent (upstreams s' ! k) = sent (upstreams s ! k)
                \<and> discarded (upstreams s' ! k) = discarded (upstreams s ! k))"
      by (simp add: keeps_def)
  qed
  show "humeSocket t = Some OPEN \<and> readyState (ts_clientWs t) \<noteq> CLOSED
    \<longrightarrow> ts_step c t TsClientClose
        = Some (t\<lparr>ts_clientWs := (ts_clientWs t)\<lparr>readyState := CLOSED\<rparr>,
                  humeSocket := Some CLOSING\<rparr>)"
    by (simp add: ts_step_def ts_onClientClose_def)
  show "humeSocket t = Some OPEN \<and> readyState (ts_clientWs t) = OPEN
    \<longrightarrow> ts_step c t TsHumeClose
        = Some (t\<lparr>humeSocket := Some CLOSED,
                  ts_clientWs := (ts_clientWs t)\<lparr>readyState := CLOSING\<rparr>\<rparr>)"
    by (simp add: ts_step_def ts_onHumeClose_def ws_close_def)
  show "ts_onClientClose (ts_onClientClose t) = ts_onClientClose t"
    by (simp add: ts_onClientClose_def)
  show "ts_onHumeClose (ts_onHumeClose t) = ts_onHumeClose t"
    by (cases "readyState (ts_clientWs t)") (simp_all add: ts_onHumeClose_def ws_close_def)
  show "\<exists>t'. ts_step c t e = Some t'
         \<and> discarded (ts_clientWs t') = discarded (ts_clientWs t)
         \<and> (readyState (ts_clientWs t) \<noteq> OPEN
              \<longrightarrow> sent (ts_clientWs t') = sent (ts_clientWs t))
         \<and> (humeSocket t' \<noteq> Some OPEN
              \<longrightarrow> audioInputs t' = audioInputs t \<and> sessionSettings t' = sessionSettings t)"
    by (rule ts_step_guarded)
qed

text \<open>
  The amended claim on the ready session, on the session whose client socket has
  closed, and on an index.ts session with an open upstream socket.
\<close>

theorem teardown_closes_both_sides_witness:
  "ws ready_session = Some 0
   \<and> 0 < length (upstreams ready_session)
   \<and> readyState (upstreams ready_session ! 0) = OPEN
   \<and> readyState (clientWs ready_session) = OPEN
   \<and> step example_env ready_session ClientClose = Inr client_closed_session
   \<and> step example_env ready_session (UpstreamClose 0)
     = Inr (ready_session
         \<lparr>ws := None,
          upstreams :=
            [\<lparr>readyState = CLOSED,
              sent = [AudioInput ''AAAA'' (Some ''u1''),
                      AssistantInput (Some ''u1'') ''Hello, how can I help you today?''],
              discarded = []\<rparr>],
          clientWs := new_socket CLOSING\<rparr>)
   \<and> closing (clientWs client_closed_session)
   \<and> closing (upstreams client_closed_session ! 0)
   \<and> ws client_closed_session \<noteq> Some 0
   \<and> (\<exists>x. run example_env client_closed_session
              [UpstreamMessage 0 (Parsed UserInterruption),
               UpstreamMessage 0 (Parsed (ToolCall ''nope'' ''call-9'' ''{}''))]
            = Inr x
        \<and> sent (clientWs x) = sent (clientWs client_closed_session)
        \<and> sent (upstreams x ! 0) = sent (upstreams client_closed_session ! 0)
        \<and> discarded (upstreams x ! 0) = discarded (upstreams client_closed_session ! 0)
        \<and> discarded (clientWs x) = [Interruption])
   \<and> humeSocket open_ts_session = Some OPEN
   \<and> readyState (ts_clientWs open_ts_session) = OPEN
   \<and> ts_step None open_ts_session TsClientClose
     = Some (open_ts_session\<lparr>ts_clientWs := new_socket CLOSED, humeSocket := Some CLOSING\<rparr>)
   \<and> ts_step None open_ts_session TsHumeClose
     = Some (open_ts_session\<lparr>humeSocket := Some CLOSED, ts_clientWs := new_socket CLOSING\<rparr>)"
proof -
  let ?es = "[UpstreamMessage 0 (Parsed UserInterruption),
              UpstreamMessage 0 (Parsed (ToolCall ''nope'' ''call-9'' ''{}''))]"
  let ?x = "client_closed_session
         \<lparr>clientWs := \<lparr>readyState = CLOSED, sent = [], discarded = [Interruption]\<rparr>,
          errors := [''No handler found for tool: nope'', ''Error parsing HumeAI message:'']\<rparr>"
  have h: "ws ready_session = Some 0" "0 < length (upstreams ready_session)"
    "readyState (upstreams ready_session ! 0) = OPEN"
    "readyState (clientWs ready_session) = OPEN"
    "readyState (upstreams ready_session ! 0) \<noteq> CLOSED"
    "readyState (clientWs ready_session) \<noteq> CLOSED"
    by (simp_all add: ready_session_def new_socket_def)
  have g: "closing (clientWs client_closed_session)"
    "closing (upstreams client_closed_session ! 0)"
    "ws client_closed_session \<noteq> Some 0"
    "0 < length (upstreams client_closed_session)"
    by (simp_all add: client_closed_session_def closing_def new_socket_def)
  have t: "humeSocket open_ts_session = Some OPEN"
    "readyState (ts_clientWs open_ts_session) = OPEN"
    "readyState (ts_clientWs open_ts_session) \<noteq> CLOSED"
    by (simp_all add: open_ts_session_def new_ts_session_def new_socket_def)
  have r: "run example_env client_closed_session ?es = Inr ?x"
    by (simp add: step_def Let_def caught_def clientWs_send_def ws_send_def ws_send_current_def
          console_error_def client_closed_session_def ready_session_def new_socket_def
          example_env_def)
  note a = teardown_closes_both_sides
    [where s = ready_session and k = 0 and env = example_env and es = "[]"
       and s' = ready_session and t = open_ts_session and c = None and e = TsClientClose]
  note b = teardown_closes_both_sides
    [where s = client_closed_session and k = 0 and env = example_env and es = ?es
       and s' = ?x and t = open_ts_session and c = None and e = TsHumeClose]
  from a h have 1: "step example_env ready_session ClientClose
        = Inr (ready_session\<lparr>clientWs := (clientWs ready_session)\<lparr>readyState := CLOSED\<rparr>,
                 upstreams := (upstreams ready_session)
                   [0 := (upstreams ready_session ! 0)\<lparr>readyState := CLOSING\<rparr>],
                 ws := None, audioBuffer := []\<rparr>)"
    by blast
  from a h have 2: "step example_env ready_session (UpstreamClose 0)
        = Inr (ready_session\<lparr>upstreams := (upstreams ready_session)
                   [0 := (upstreams ready_session ! 0)\<lparr>readyState := CLOSED\<rparr>],
                 ws := None,
                 clientWs := (clientWs ready_session)\<lparr>readyState := CLOSING\<rparr>,
                 audioBuffer := []\<rparr>)"
    by blast
  from b r g have 3: "sent (clientWs ?x) = sent (clientWs client_closed_session)"
    "sent (upstreams ?x ! 0) = sent (upstreams client_closed_session ! 0)"
    "discarded (upstreams ?x ! 0) = discarded (upstreams client_closed_session ! 0)"
    by blast+
  from a t have 4: "ts_step None open_ts_session TsClientClose
        = Some (open_ts_session\<lparr>ts_clientWs := (ts_clientWs open_ts_session)\<lparr>readyState := CLOSED\<rparr>,
                  humeSocket := Some CLOSING\<rparr>)"
    by blast
  from a t have 5: "ts_step None open_ts_session TsHumeClose
        = Some (open_ts_session\<lparr>humeSocket := Some CLOSED,
                  ts_clientWs := (ts_clientWs open_ts_session)\<lparr>readyState := CLOSING\<rparr>\<rparr>)"
    by blast
  have c1: "step example_env ready_session ClientClose = Inr client_closed_session"
    unfolding 1 by (simp add: client_closed_session_def ready_session_def new_socket_def)
  have c2: "step example_env ready_session (UpstreamClose 0)
     = Inr (ready_session
         \<lparr>ws := None,
          upstreams :=
            [\<lparr>readyState = CLOSED,
              sent = [AudioInput ''AAAA'' (Some ''u1''),
                      AssistantInput (Some ''u1'') ''Hello, how can I help you today?''],
              discarded = []\<rparr>],
          clientWs := new_socket CLOSING\<rparr>)"
    unfolding 2 by (simp add: ready_session_def new_socket_def)
  have c4: "ts_step None open_ts_session TsClientClose
     = Some (open_ts_session\<lparr>ts_clientWs := new_socket CLOSED, humeSocket := Some CLOSING\<rparr>)"
    unfolding 4 by (simp add: open_ts_session_def new_ts_session_def new_socket_def)
  have c5: "ts_step None open_ts_session TsHumeClose
     = Some (open_ts_session\<lparr>humeSocket := Some CLOSED, ts_clientWs := new_socket CLOSING\<rparr>)"
    unfolding 5 by (simp add: open_ts_session_def new_ts_session_def new_socket_def)
  have d: "discarded (clientWs ?x) = [Interruption]" by simp
  from r 3 d have c3: "\<exists>x. run example_env client_closed_session ?es = Inr x
        \<and> sent (clientWs x) = sent (clientWs client_closed_session)
        \<and> sent (upstreams x ! 0) = sent (upstreams client_closed_session ! 0)
        \<and> discarded (upstreams x ! 0) = discarded (upstreams client_closed_session ! 0)
        \<and> discarded (clientWs x) = [Interruption]"
    by blast
  from h(1-4) g(1-3) t(1,2) c1 c2 c3 c4 c5 show ?thesis by (simp only: simp_thms)
qed

end
